theory Spec2Isabelle
  imports Complex_Main "HOL-Library.Char_ord" "HOL-Library.List_Lexorder"
    "HOL-Library.Mapping" "HOL-Library.AList_Mapping" "HOL-Library.Log_Nat"
begin

section \<open>Python values used by both stages\<close>

text \<open>
  Text is modelled as \<open>string\<close> (a list of 8-bit characters), so the development
  covers ASCII input; a file opened for reading is the list of lines that iterating over
  the file object yields (each line still carrying its line terminator, if it has one).
  Exceptions are values: every function that can raise returns \<open>py_error + 'a\<close>.
\<close>

datatype py_error = FileNotFoundError | PermissionError | UnicodeDecodeError
  | ValueError | IndexError | CsvError | OverflowError | ZeroDivisionError

text \<open>\<open>open(path, 'r')\<close> followed by reading all lines: either raises or yields the lines.\<close>

type_synonym filesystem = "string \<Rightarrow> py_error + string list"

definition TAB :: char where
  "TAB = CHR 0x09"

definition NEWLINE :: char where
  "NEWLINE = CHR 0x0A"

text \<open>\<open>str.isspace\<close> on ASCII: 0x09..0x0D, 0x1C..0x1F and the blank.\<close>

definition py_isspace :: "char \<Rightarrow> bool" where
  "py_isspace c = (c \<in> set [CHR 0x09, CHR 0x0A, CHR 0x0B, CHR 0x0C, CHR 0x0D,
                              CHR 0x1C, CHR 0x1D, CHR 0x1E, CHR 0x1F, CHR 0x20])"

text \<open>\<open>s.strip()\<close>\<close>

definition strip :: "string \<Rightarrow> string" where
  "strip s = rev (dropWhile py_isspace (rev (dropWhile py_isspace s)))"

text \<open>\<open>s.startswith(p)\<close> and \<open>s.endswith(p)\<close>\<close>

definition startswith :: "string \<Rightarrow> string \<Rightarrow> bool" where
  "startswith s p = (take (length p) s = p)"

definition endswith :: "string \<Rightarrow> string \<Rightarrow> bool" where
  "endswith s p = (length p \<le> length s \<and> drop (length s - length p) s = p)"

text \<open>\<open>sub in s\<close> for strings: \<open>sub\<close> occurs somewhere in \<open>s\<close>.\<close>

fun py_in :: "string \<Rightarrow> string \<Rightarrow> bool" where
  "py_in sub [] = (sub = [])"
| "py_in sub (c # cs) = (startswith (c # cs) sub \<or> py_in sub cs)"

text \<open>
  \<open>s.split(sep)\<close> for a non-empty separator: the pieces between the non-overlapping
  occurrences of \<open>sep\<close>, found from left to right. Every call site of the program passes
  a non-empty literal (Python raises \<open>ValueError\<close> for an empty one); for an empty
  separator the model returns the whole string as one piece.
\<close>

fun py_split :: "string \<Rightarrow> string \<Rightarrow> string list" where
  "py_split sep [] = [[]]"
| "py_split sep (c # cs) =
     (if sep \<noteq> [] \<and> startswith (c # cs) sep
      then [] # py_split sep (drop (length sep - 1) cs)
      else (case py_split sep cs of
              [] \<Rightarrow> [[c]]
            | p # ps \<Rightarrow> (c # p) # ps))"

text \<open>\<open>xs[i]\<close> for a non-negative literal index \<open>i\<close>.\<close>

definition py_index :: "'a list \<Rightarrow> nat \<Rightarrow> py_error + 'a" where
  "py_index xs i = (if i < length xs then Inr (xs ! i) else Inl IndexError)"

text \<open>
  \<open>int(s)\<close> on ASCII text. Leading and trailing whitespace is skipped, and for an ASCII
  string this is C's \<open>isspace\<close> (0x09..0x0D and the blank), a smaller set than
  \<open>str.strip\<close> removes; one sign is allowed, and the digits may be grouped by single
  underscores; anything else raises \<open>ValueError\<close>. CPython also raises \<open>ValueError\<close> when
  the text has more digits than \<open>sys.get_int_max_str_digits()\<close>, 4300 unless it is
  reconfigured.
\<close>

definition c_isspace :: "char \<Rightarrow> bool" where
  "c_isspace c = (c \<in> set [CHR 0x09, CHR 0x0A, CHR 0x0B, CHR 0x0C, CHR 0x0D, CHR 0x20])"

definition int_strip :: "string \<Rightarrow> string" where
  "int_strip s = rev (dropWhile c_isspace (rev (dropWhile c_isspace s)))"

definition max_str_digits :: nat where
  "max_str_digits = 4300"

definition is_digit :: "char \<Rightarrow> bool" where
  "is_digit c = (c \<in> set ''0123456789'')"

definition digit_val :: "char \<Rightarrow> int" where
  "digit_val c = int (of_char c) - 48"

text \<open>The digits after the first one: a digit, or an underscore followed by a digit.\<close>

fun digits_from :: "int \<Rightarrow> string \<Rightarrow> py_error + int" where
  "digits_from acc [] = Inr acc"
| "digits_from acc [c] = (if is_digit c then Inr (10 * acc + digit_val c) else Inl ValueError)"
| "digits_from acc (c # d # cs) =
     (if is_digit c then digits_from (10 * acc + digit_val c) (d # cs)
      else if c = CHR ''_'' \<and> is_digit d then digits_from (10 * acc + digit_val d) cs
      else Inl ValueError)"

definition py_digits :: "string \<Rightarrow> py_error + int" where
  "py_digits s = (case s of
       [] \<Rightarrow> Inl ValueError
     | c # cs \<Rightarrow>
         if is_digit c then
           (if max_str_digits < length (filter is_digit s) then Inl ValueError
            else digits_from (digit_val c) cs)
         else Inl ValueError)"

definition py_int :: "string \<Rightarrow> py_error + int" where
  "py_int s = (case int_strip s of
       [] \<Rightarrow> Inl ValueError
     | c # cs \<Rightarrow>
         if c = CHR ''-'' then (case py_digits cs of Inl e \<Rightarrow> Inl e | Inr n \<Rightarrow> Inr (- n))
         else if c = CHR ''+'' then py_digits cs
         else py_digits (c # cs))"

subsection \<open>Floating point\<close>

text \<open>
  A Python \<open>float\<close> is an IEEE 754 binary64 number: a rational with a 53-bit significand,
  an infinity, or a not-a-number (the two zeros are not told apart; they compare equal).
  \<open>round_double\<close> is rounding to the nearest such number, ties to the even significand,
  with exponents from \<open>-1022\<close> (below which the spacing stays \<open>2 ^ -1074\<close>) and overflow
  to an infinity from \<open>2 ^ 1024\<close> on.
\<close>

datatype py_float = Finite rat | PosInf | NegInf | NaN

text \<open>\<open>\<lfloor>log\<^sub>2 \<bar>x\<bar>\<rfloor>\<close> for a non-zero rational.\<close>

definition ilog2 :: "rat \<Rightarrow> int" where
  "ilog2 x = (let (p, q) = quotient_of \<bar>x\<bar>; d = bitlen p - bitlen q in
       if q * 2 ^ nat d \<le> p * 2 ^ nat (- d) then d else d - 1)"

definition round_half_even :: "rat \<Rightarrow> int" where
  "round_half_even y = (let q = \<lfloor>y\<rfloor>; r = y - of_int q in
       if r < 1 / 2 then q else if 1 / 2 < r then q + 1 else if even q then q else q + 1)"

definition round_double :: "rat \<Rightarrow> py_float" where
  "round_double x =
     (if x = 0 then Finite 0
      else let u = power_int 2 (max (ilog2 x) (- 1022) - 52);
               y = of_int (round_half_even (x / u)) * u
           in if 2 ^ 1024 \<le> \<bar>y\<bar> then (if 0 < x then PosInf else NegInf) else Finite y)"

text \<open>
  \<open>a / b\<close> on integers (true division, correctly rounded) and the conversion of an
  integer operand to \<open>float\<close>: both raise \<open>OverflowError\<close> instead of giving an infinity.
\<close>

definition py_true_div :: "int \<Rightarrow> int \<Rightarrow> py_error + py_float" where
  "py_true_div a b =
     (if b = 0 then Inl ZeroDivisionError
      else (case round_double (of_int a / of_int b) of
              Finite y \<Rightarrow> Inr (Finite y)
            | _ \<Rightarrow> Inl OverflowError))"

definition py_float_of_int :: "int \<Rightarrow> py_error + py_float" where
  "py_float_of_int n =
     (case round_double (of_int n) of
        Finite y \<Rightarrow> Inr (Finite y)
      | _ \<Rightarrow> Inl OverflowError)"

text \<open>\<open>a + b\<close>, \<open>a - b\<close> and \<open>a <= b\<close> on floats; the sum overflows to an infinity.\<close>

fun float_add :: "py_float \<Rightarrow> py_float \<Rightarrow> py_float" where
  "float_add (Finite a) (Finite b) = round_double (a + b)"
| "float_add NaN b = NaN"
| "float_add a NaN = NaN"
| "float_add PosInf NegInf = NaN"
| "float_add NegInf PosInf = NaN"
| "float_add PosInf b = PosInf"
| "float_add a PosInf = PosInf"
| "float_add NegInf b = NegInf"
| "float_add a NegInf = NegInf"

fun float_neg :: "py_float \<Rightarrow> py_float" where
  "float_neg (Finite a) = Finite (- a)"
| "float_neg PosInf = NegInf"
| "float_neg NegInf = PosInf"
| "float_neg NaN = NaN"

definition float_sub :: "py_float \<Rightarrow> py_float \<Rightarrow> py_float" where
  "float_sub a b = float_add a (float_neg b)"

fun float_le :: "py_float \<Rightarrow> py_float \<Rightarrow> bool" where
  "float_le (Finite a) (Finite b) = (a \<le> b)"
| "float_le NaN b = False"
| "float_le a NaN = False"
| "float_le NegInf b = True"
| "float_le a PosInf = True"
| "float_le PosInf b = False"
| "float_le a NegInf = False"

section \<open>Stage 1: extract\_neighborhood\_genes.py\<close>

subsection \<open>parse\_gff\<close>

record feature =
  f_type :: string
  f_start :: int
  f_end :: int
  f_strand :: string
  f_id :: string
  f_product :: string

type_synonym contig_db = "string \<rightharpoonup> feature list"

text \<open>
  The attribute lookup of lines 70 to 76: \<open>default\<close> unless the token occurs in the
  attribute text, else \<open>attributes_str.split(token)[1].split(";")[0]\<close>.
\<close>

definition attr_value :: "string \<Rightarrow> string \<Rightarrow> py_error + string" where
  "attr_value token attributes_str =
     (if py_in token attributes_str
      then (case py_index (py_split token attributes_str) 1 of
              Inl e \<Rightarrow> Inl e
            | Inr rest \<Rightarrow> py_index (py_split '';'' rest) 0)
      else Inr ''N/A'')"

text \<open>\<open>contig_db[contig].append(f)\<close> on a \<open>defaultdict(list)\<close>.\<close>

definition db_append :: "contig_db \<Rightarrow> string \<Rightarrow> feature \<Rightarrow> contig_db" where
  "db_append contig_db contig f =
     contig_db(contig \<mapsto> (case contig_db contig of None \<Rightarrow> [] | Some fs \<Rightarrow> fs) @ [f])"

text \<open>One iteration of the loop over the lines of the file (lines 51 to 85).\<close>

definition parse_gff_line :: "contig_db \<Rightarrow> string \<Rightarrow> py_error + contig_db" where
  "parse_gff_line contig_db line =
     (if startswith line ''#'' \<or> strip line = [] then Inr contig_db
      else let parts = py_split [TAB] (strip line) in
        if length parts < 9 then Inr contig_db
        else let feature_type = parts ! 2 in
          if feature_type \<notin> set [''gene'', ''CDS''] then Inr contig_db
          else let contig = parts ! 0 in
            (case py_int (parts ! 3) of Inl e \<Rightarrow> Inl e | Inr start \<Rightarrow>
            (case py_int (parts ! 4) of Inl e \<Rightarrow> Inl e | Inr end_pos \<Rightarrow>
            (let strand = parts ! 6; attributes_str = parts ! 8 in
            (case attr_value ''ID='' attributes_str of Inl e \<Rightarrow> Inl e | Inr gene_id \<Rightarrow>
            (case attr_value ''product='' attributes_str of Inl e \<Rightarrow> Inl e | Inr product \<Rightarrow>
               Inr (db_append contig_db contig
                      \<lparr>f_type = feature_type, f_start = start, f_end = end_pos,
                       f_strand = strand, f_id = gene_id, f_product = product\<rparr>)))))))"

fun parse_gff_lines :: "contig_db \<Rightarrow> string list \<Rightarrow> py_error + contig_db" where
  "parse_gff_lines contig_db [] = Inr contig_db"
| "parse_gff_lines contig_db (line # rest) =
     (case parse_gff_line contig_db line of
        Inl e \<Rightarrow> Inl e
      | Inr contig_db' \<Rightarrow> parse_gff_lines contig_db' rest)"

definition parse_gff :: "filesystem \<Rightarrow> string \<Rightarrow> py_error + contig_db" where
  "parse_gff fs gff_file =
     (case fs gff_file of
        Inl e \<Rightarrow> Inl e
      | Inr lines \<Rightarrow> parse_gff_lines Map.empty lines)"

text \<open>A GFF line built from its columns, for the concrete inputs below.\<close>

fun tab_join :: "string list \<Rightarrow> string" where
  "tab_join [] = []"
| "tab_join [x] = x"
| "tab_join (x # y # ys) = x @ [TAB] @ tab_join (y # ys)"

text \<open>What a call raised, if it raised: lets results that hold maps be compared.\<close>

definition raised :: "py_error + 'a \<Rightarrow> py_error option" where
  "raised r = (case r of Inl e \<Rightarrow> Some e | Inr _ \<Rightarrow> None)"

subsection \<open>parse\_goi\_fasta\<close>

record goi =
  g_strain :: string
  g_contig :: string
  g_start :: int
  g_end :: int
  g_header :: string

text \<open>
  \<open>HEADER_REGEX\<close> is
  \<^verbatim>\<open>>([^|]+)\|contig=([^|]+)\|.*?SubjectStart=(\d+)_SubjectEnd=(\d+)\<close>.
  Its matcher is written out piece by piece. The greedy groups \<open>[^|]+\<close> and \<open>\d+\<close>
  are each followed by a literal that starts with a character outside the group's class
  (\<open>|\<close>, \<open>_\<close>) or by the end of the pattern, so giving back characters never helps and
  each group is the longest run; \<open>.*?\<close> tries the rest of the pattern at every position
  from left to right and cannot cross a newline; \<open>search\<close> tries every start position
  from left to right.
\<close>

definition lit :: "string \<Rightarrow> string \<Rightarrow> string option" where
  "lit p s = (if startswith s p then Some (drop (length p) s) else None)"

definition not_bar :: "char \<Rightarrow> bool" where
  "not_bar c = (c \<noteq> CHR ''|'')"

text \<open>\<open>SubjectStart=(\d+)_SubjectEnd=(\d+)\<close> at the start of \<open>s\<close>.\<close>

definition coords_here :: "string \<Rightarrow> (string \<times> string) option" where
  "coords_here s =
     (case lit ''SubjectStart='' s of None \<Rightarrow> None | Some t \<Rightarrow>
        if takeWhile is_digit t = [] then None
        else (case lit ''_SubjectEnd='' (dropWhile is_digit t) of None \<Rightarrow> None | Some u \<Rightarrow>
          if takeWhile is_digit u = [] then None
          else Some (takeWhile is_digit t, takeWhile is_digit u)))"

text \<open>\<open>.*?SubjectStart=(\d+)_SubjectEnd=(\d+)\<close> at the start of \<open>s\<close>.\<close>

fun lazy_coords :: "string \<Rightarrow> (string \<times> string) option" where
  "lazy_coords [] = coords_here []"
| "lazy_coords (c # cs) =
     (case coords_here (c # cs) of
        Some r \<Rightarrow> Some r
      | None \<Rightarrow> if c = NEWLINE then None else lazy_coords cs)"

text \<open>The whole pattern at the start of \<open>s\<close>.\<close>

definition match_here :: "string \<Rightarrow> (string \<times> string \<times> string \<times> string) option" where
  "match_here s =
     (case lit ''>'' s of None \<Rightarrow> None | Some s1 \<Rightarrow>
        if takeWhile not_bar s1 = [] then None
        else (case lit ''|contig='' (dropWhile not_bar s1) of None \<Rightarrow> None | Some s2 \<Rightarrow>
          if takeWhile not_bar s2 = [] then None
          else (case lit ''|'' (dropWhile not_bar s2) of None \<Rightarrow> None | Some s3 \<Rightarrow>
            (case lazy_coords s3 of None \<Rightarrow> None | Some (a, b) \<Rightarrow>
               Some (takeWhile not_bar s1, takeWhile not_bar s2, a, b)))))"

text \<open>\<open>HEADER_REGEX.search(line)\<close>, returning \<open>match.groups()\<close>.\<close>

fun HEADER_REGEX_search :: "string \<Rightarrow> (string \<times> string \<times> string \<times> string) option" where
  "HEADER_REGEX_search [] = match_here []"
| "HEADER_REGEX_search (c # cs) =
     (case match_here (c # cs) of
        Some r \<Rightarrow> Some r
      | None \<Rightarrow> HEADER_REGEX_search cs)"

text \<open>
  One iteration of the loop of lines 21 to 38: the gene of interest appended for this
  line, if any (the warning printed for a header that does not match is not modelled).
\<close>

definition parse_goi_line :: "string \<Rightarrow> py_error + goi option" where
  "parse_goi_line line =
     (if startswith line ''>'' then
        (case HEADER_REGEX_search line of
           None \<Rightarrow> Inr None
         | Some (strain, contig, start, end_str) \<Rightarrow>
            (case py_int start of Inl e \<Rightarrow> Inl e | Inr s \<Rightarrow>
            (case py_int end_str of Inl e \<Rightarrow> Inl e | Inr e \<Rightarrow>
               Inr (Some \<lparr>g_strain = strain, g_contig = contig,
                          g_start = min s e, g_end = max s e,
                          g_header = strip line\<rparr>))))
      else Inr None)"

fun parse_goi_lines :: "string list \<Rightarrow> py_error + goi list" where
  "parse_goi_lines [] = Inr []"
| "parse_goi_lines (line # rest) =
     (case parse_goi_line line of
        Inl e \<Rightarrow> Inl e
      | Inr g \<Rightarrow>
         (case parse_goi_lines rest of
            Inl e \<Rightarrow> Inl e
          | Inr gs \<Rightarrow> Inr ((case g of None \<Rightarrow> [] | Some x \<Rightarrow> [x]) @ gs)))"

definition parse_goi_fasta :: "filesystem \<Rightarrow> string \<Rightarrow> py_error + goi list" where
  "parse_goi_fasta fs fasta_file =
     (case fs fasta_file of
        Inl e \<Rightarrow> Inl e
      | Inr lines \<Rightarrow> parse_goi_lines lines)"

subsection \<open>load\_all\_annotations\<close>

type_synonym annotations_db = "string \<rightharpoonup> contig_db"

text \<open>\<open>os.path.basename\<close> and \<open>os.path.join\<close> (POSIX).\<close>

definition basename :: "string \<Rightarrow> string" where
  "basename p = rev (takeWhile (\<lambda>c. c \<noteq> CHR ''/'') (rev p))"

definition path_join :: "string \<Rightarrow> string \<Rightarrow> string" where
  "path_join a b =
     (if startswith b ''/'' then b
      else if a = [] \<or> endswith a ''/'' then a @ b
      else a @ ''/'' @ b)"

text \<open>
  \<open>os.walk(annotation_dir)\<close> is an input: the list of \<open>(root, dirs, files)\<close> triples
  it yields, in the order it yields them.
\<close>

type_synonym walk = "(string \<times> string list \<times> string list) list"

text \<open>The inner loop, over the files of one directory (lines 99 to 106).\<close>

fun load_files :: "filesystem \<Rightarrow> string \<Rightarrow> annotations_db \<Rightarrow> string list
    \<Rightarrow> py_error + annotations_db" where
  "load_files fs root_dir annotations_db [] = Inr annotations_db"
| "load_files fs root_dir annotations_db (file # files) =
     (if endswith file ''.gff'' then
        (case parse_gff fs (path_join root_dir file) of
           Inl e \<Rightarrow> Inl e
         | Inr contig_db \<Rightarrow>
             load_files fs root_dir (annotations_db(basename root_dir \<mapsto> contig_db)) files)
      else load_files fs root_dir annotations_db files)"

fun load_walk :: "filesystem \<Rightarrow> annotations_db \<Rightarrow> walk \<Rightarrow> py_error + annotations_db" where
  "load_walk fs annotations_db [] = Inr annotations_db"
| "load_walk fs annotations_db ((root_dir, dirs, files) # rest) =
     (case load_files fs root_dir annotations_db files of
        Inl e \<Rightarrow> Inl e
      | Inr annotations_db' \<Rightarrow> load_walk fs annotations_db' rest)"

definition load_all_annotations :: "filesystem \<Rightarrow> walk \<Rightarrow> py_error + annotations_db" where
  "load_all_annotations fs w = load_walk fs Map.empty w"

subsection \<open>find\_neighbors\<close>

record neighbor_record =
  goi_strain :: string
  goi_contig :: string
  goi_start :: int
  goi_end :: int
  goi_header :: string
  neighbor_id :: string
  neighbor_type :: string
  neighbor_start :: int
  neighbor_end :: int
  neighbor_strand :: string
  neighbor_product :: string

definition make_record :: "goi \<Rightarrow> feature \<Rightarrow> neighbor_record" where
  "make_record g gene =
     \<lparr>goi_strain = g_strain g, goi_contig = g_contig g,
      goi_start = g_start g, goi_end = g_end g, goi_header = g_header g,
      neighbor_id = f_id gene, neighbor_type = f_type gene,
      neighbor_start = f_start gene, neighbor_end = f_end gene,
      neighbor_strand = f_strand gene, neighbor_product = f_product gene\<rparr>"

text \<open>
  The loop over the genes of the contig (lines 143 to 169): the coordinates are compared
  as integers, the midpoints as floats. An exception leaves the loop with no result.
\<close>

fun scan_contig :: "goi \<Rightarrow> py_float \<Rightarrow> py_float \<Rightarrow> feature list
    \<Rightarrow> py_error + neighbor_record list" where
  "scan_contig g window_start window_end [] = Inr []"
| "scan_contig g window_start window_end (gene # genes) =
     (if f_start gene = g_start g \<and> f_end gene = g_end g
      then scan_contig g window_start window_end genes
      else
        (case py_true_div (f_start gene + f_end gene) 2 of
           Inl e \<Rightarrow> Inl e
         | Inr gene_center \<Rightarrow>
            (case scan_contig g window_start window_end genes of
               Inl e \<Rightarrow> Inl e
             | Inr found \<Rightarrow>
                 Inr (if float_le window_start gene_center \<and> float_le gene_center window_end
                      then make_record g gene # found else found))))"

text \<open>
  The body of the loop over the genes of interest (lines 118 to 169): what this gene of
  interest adds to \<open>results\<close>. The two warnings are not modelled.
\<close>

definition goi_neighbors :: "goi \<Rightarrow> annotations_db \<Rightarrow> int
    \<Rightarrow> py_error + neighbor_record list" where
  "goi_neighbors g annotations_db window_size =
     (case annotations_db (g_strain g) of
        None \<Rightarrow> Inr []
      | Some strain_annotations \<Rightarrow>
         (case strain_annotations (g_contig g) of
            None \<Rightarrow> Inr []
          | Some all_genes_on_contig \<Rightarrow>
             (case py_true_div (g_start g + g_end g) 2 of
                Inl e \<Rightarrow> Inl e
              | Inr goi_center \<Rightarrow>
                 (case py_float_of_int window_size of
                    Inl e \<Rightarrow> Inl e
                  | Inr window_float \<Rightarrow>
                      scan_contig g (float_sub goi_center window_float)
                        (float_add goi_center window_float) all_genes_on_contig))))"

fun find_neighbors :: "goi list \<Rightarrow> annotations_db \<Rightarrow> int
    \<Rightarrow> py_error + neighbor_record list" where
  "find_neighbors [] annotations_db window_size = Inr []"
| "find_neighbors (g # rest) annotations_db window_size =
     (case goi_neighbors g annotations_db window_size of
        Inl e \<Rightarrow> Inl e
      | Inr found \<Rightarrow>
         (case find_neighbors rest annotations_db window_size of
            Inl e \<Rightarrow> Inl e
          | Inr later \<Rightarrow> Inr (found @ later)))"

subsection \<open>write\_output\_csv and main\<close>

text \<open>
  The output file is modelled by the rows handed to the CSV writer: \<open>None\<close> when no
  file is written. Failure to open the output file is not modelled.
\<close>

definition write_output_csv :: "neighbor_record list \<Rightarrow> neighbor_record list option" where
  "write_output_csv results = (if results = [] then None else Some results)"

definition extract_main :: "filesystem \<Rightarrow> walk \<Rightarrow> string \<Rightarrow> int
    \<Rightarrow> py_error + neighbor_record list option" where
  "extract_main fs w fasta window =
     (case parse_goi_fasta fs fasta of
        Inl e \<Rightarrow> Inl e
      | Inr genes_of_interest \<Rightarrow>
         (case load_all_annotations fs w of
            Inl e \<Rightarrow> Inl e
          | Inr annotations_db \<Rightarrow>
             (case find_neighbors genes_of_interest annotations_db window of
                Inl e \<Rightarrow> Inl e
              | Inr neighbors \<Rightarrow> Inr (write_output_csv neighbors))))"

section \<open>Stage 2: summarize\_results.py\<close>

text \<open>
  \<open>csv.DictReader\<close> is an input: opening the input table and iterating the reader either
  raises or yields the rows. A row is the partial map \<open>row.get\<close> reads: a column that is
  absent from the header, or that a short data row leaves unfilled, gives \<open>None\<close>.
\<close>

type_synonym row = "string \<rightharpoonup> string"

type_synonym csv_source = "string \<Rightarrow> py_error + row list"

text \<open>A \<open>defaultdict(set)\<close>.\<close>

type_synonym groups = "(string, string set) mapping"

text \<open>\<open>d[k].add(v)\<close>\<close>

definition add_member :: "string \<Rightarrow> string \<Rightarrow> groups \<Rightarrow> groups" where
  "add_member k v d = Mapping.update k (insert v (Mapping.lookup_default {} d k)) d"

text \<open>Truth value of what \<open>row.get\<close> returns: \<open>None\<close> and the empty string are false.\<close>

definition truthy :: "string option \<Rightarrow> bool" where
  "truthy v = (case v of None \<Rightarrow> False | Some s \<Rightarrow> s \<noteq> [])"

text \<open>One iteration of the reading loop (lines 24 to 31), on both dictionaries.\<close>

definition add_row :: "groups \<times> groups \<Rightarrow> row \<Rightarrow> groups \<times> groups" where
  "add_row acc r =
     (let strain = r ''goi_strain''; neighbor = r ''neighbor_id'' in
      if truthy strain \<and> truthy neighbor
      then (add_member (the strain) (the neighbor) (fst acc),
            add_member (the neighbor) (the strain) (snd acc))
      else acc)"

definition read_rows :: "row list \<Rightarrow> groups \<times> groups" where
  "read_rows rows = foldl add_row (Mapping.empty, Mapping.empty) rows"

text \<open>\<open>max\<close> of a generator: raises \<open>ValueError\<close> when there is nothing to take it of.\<close>

fun py_max :: "int list \<Rightarrow> py_error + int" where
  "py_max [] = Inl ValueError"
| "py_max (x # xs) = Inr (fold max xs x)"

text \<open>\<open>str(n)\<close> for a natural number, as the f-strings of the header use it.\<close>

fun str_nat :: "nat \<Rightarrow> string" where
  "str_nat n =
     (if n < 10 then [char_of (48 + n)]
      else str_nat (n div 10) @ [char_of (48 + n mod 10)])"

text \<open>A cell handed to \<open>csv.writer\<close>: a string, or the integer count.\<close>

datatype cell = Str string | Num int

text \<open>
  One summary file (lines 49 to 67, and again 76 to 94): the header row, then a row per
  key in sorted order. \<open>sorted(d.items())\<close> sorts by key, the keys being distinct.
  The sizes are listed in key order rather than in insertion order, which the maximum
  does not depend on.
\<close>

definition group_sizes :: "groups \<Rightarrow> int list" where
  "group_sizes d = map (\<lambda>k. int (card (Mapping.lookup_default {} d k))) (Mapping.ordered_keys d)"

definition header_row :: "string \<Rightarrow> string \<Rightarrow> string \<Rightarrow> int \<Rightarrow> cell list" where
  "header_row key_name count_name slot_prefix max_size =
     [Str key_name, Str count_name]
       @ map (\<lambda>i. Str (slot_prefix @ str_nat (i + 1))) [0..<nat max_size]"

definition data_row :: "groups \<Rightarrow> int \<Rightarrow> string \<Rightarrow> cell list" where
  "data_row d max_size k =
     (let member_list = sorted_list_of_set (Mapping.lookup_default {} d k);
          count = int (length member_list)
      in [Str k, Num count] @ map Str member_list
           @ replicate (nat (max_size - count)) (Str []))"

definition summary_table :: "string \<Rightarrow> string \<Rightarrow> string \<Rightarrow> groups \<Rightarrow> py_error + cell list list" where
  "summary_table key_name count_name slot_prefix d =
     (case py_max (group_sizes d) of
        Inl e \<Rightarrow> Inl e
      | Inr max_size \<Rightarrow>
          Inr (header_row key_name count_name slot_prefix max_size
                 # map (data_row d max_size) (Mapping.ordered_keys d)))"

text \<open>
  What a run of \<open>summarize_neighbors\<close> leaves behind: a diagnostic and no output file,
  or the two tables written. The progress messages and failure to open an output file
  are not modelled.
\<close>

datatype diagnostic = InputFileNotFound string | ErrorReadingFile py_error | NoValidData

datatype summary = NothingWritten diagnostic
  | Written (strain_table: "cell list list") (gene_table: "cell list list")

definition summarize_neighbors :: "csv_source \<Rightarrow> string \<Rightarrow> py_error + summary" where
  "summarize_neighbors src input_file =
     (case src input_file of
        Inl e \<Rightarrow>
          if e = FileNotFoundError then Inr (NothingWritten (InputFileNotFound input_file))
          else Inr (NothingWritten (ErrorReadingFile e))
      | Inr rows \<Rightarrow>
          (let (strain_data, gene_data) = read_rows rows in
           if Mapping.is_empty strain_data then Inr (NothingWritten NoValidData)
           else
             (case summary_table ''Strain'' ''Neighbor_Count'' ''Neighbor_'' strain_data of
                Inl e \<Rightarrow> Inl e
              | Inr strain_rows \<Rightarrow>
                 (case summary_table ''Gene_Name'' ''Strain_Count'' ''Strain_'' gene_data of
                    Inl e \<Rightarrow> Inl e
                  | Inr gene_rows \<Rightarrow> Inr (Written strain_rows gene_rows)))))"

section \<open>Notions the properties are stated with, and concrete inputs\<close>

subsection \<open>Attribute text\<close>

text \<open>The text following the first occurrence of \<open>tok\<close> in \<open>s\<close> (empty if there is none).\<close>

fun after_first :: "string \<Rightarrow> string \<Rightarrow> string" where
  "after_first tok [] = []"
| "after_first tok (c # cs) =
     (if startswith (c # cs) tok then drop (length tok) (c # cs) else after_first tok cs)"

text \<open>The text before the first occurrence of \<open>tok\<close> in \<open>s\<close> (all of \<open>s\<close> if there is none).\<close>

fun before_first :: "string \<Rightarrow> string \<Rightarrow> string" where
  "before_first tok [] = []"
| "before_first tok (c # cs) =
     (if startswith (c # cs) tok then [] else c # before_first tok cs)"

subsection \<open>GFF inputs\<close>

definition gene_line :: "string \<Rightarrow> string \<Rightarrow> string \<Rightarrow> string \<Rightarrow> string" where
  "gene_line contig start end_pos attrs =
     tab_join [contig, ''src'', ''gene'', start, end_pos, ''.'', ''+'', ''.'', attrs]"

text \<open>A nine-column gene row whose start column is not an integer.\<close>

definition bad_start_line :: string where
  "bad_start_line = gene_line ''c1'' ''abc'' ''200'' ''ID=g1''"

text \<open>
  The \<open>.gff\<close> files of a walk in the order the two loops visit them, each with the
  strain identifier it resolves to.
\<close>

definition gff_entries :: "walk \<Rightarrow> (string \<times> string) list" where
  "gff_entries w = concat (map (\<lambda>(root_dir, dirs, files).
       map (\<lambda>file. (basename root_dir, path_join root_dir file))
           (filter (\<lambda>file. endswith file ''.gff'') files)) w)"

text \<open>Loading a list of such entries one after the other.\<close>

fun load_entries :: "filesystem \<Rightarrow> annotations_db \<Rightarrow> (string \<times> string) list
    \<Rightarrow> py_error + annotations_db" where
  "load_entries fs db [] = Inr db"
| "load_entries fs db ((strain_id, gff_path) # es) =
     (case parse_gff fs gff_path of
        Inl e \<Rightarrow> Inl e
      | Inr contig_db \<Rightarrow> load_entries fs (db(strain_id \<mapsto> contig_db)) es)"

text \<open>One strain directory holding two annotation files with different contigs.\<close>

definition two_file_fs :: filesystem where
  "two_file_fs p =
     (if p = ''ann/S1/a.gff'' then Inr [gene_line ''c1'' ''100'' ''200'' ''ID=g1'']
      else if p = ''ann/S1/b.gff'' then Inr [gene_line ''c2'' ''300'' ''400'' ''ID=g2'']
      else Inl FileNotFoundError)"

definition two_file_walk :: walk where
  "two_file_walk = [(''ann'', [''S1''], []), (''ann/S1'', [], [''a.gff'', ''b.gff''])]"

text \<open>Reading a contig out of a parse result or out of the final index.\<close>

definition contig_lookup :: "py_error + contig_db \<Rightarrow> string \<Rightarrow> feature list option" where
  "contig_lookup r contig = (case r of Inl e \<Rightarrow> None | Inr contig_db \<Rightarrow> contig_db contig)"

definition index_lookup :: "py_error + annotations_db \<Rightarrow> string \<Rightarrow> string
    \<Rightarrow> feature list option" where
  "index_lookup r strain contig =
     (case r of
        Inl e \<Rightarrow> None
      | Inr db \<Rightarrow> (case db strain of None \<Rightarrow> None | Some contig_db \<Rightarrow> contig_db contig))"

subsection \<open>FASTA headers\<close>

text \<open>The number a string of decimal digits denotes.\<close>

definition decimal :: "string \<Rightarrow> int" where
  "decimal ds = foldl (\<lambda>acc c. 10 * acc + digit_val c) 0 ds"

definition reversed_header :: string where
  "reversed_header = ''>S1|contig=C1|len=5_SubjectStart=20_SubjectEnd=10 x'' @ [NEWLINE]"

definition reversed_fasta :: filesystem where
  "reversed_fasta p = Inr [reversed_header, ''ACGT'' @ [NEWLINE]]"

subsection \<open>The neighbourhood scenario\<close>

text \<open>
  A gene of interest on \<open>1000..2000\<close> (centre 1500) and three features of its contig: one
  with the very same coordinates, one whose midpoint is 2000, one whose midpoint is 2001.
\<close>

definition scenario_goi :: goi where
  "scenario_goi = \<lparr>g_strain = ''S1'', g_contig = ''C1'', g_start = 1000, g_end = 2000,
                   g_header = ''>S1|contig=C1|SubjectStart=1000_SubjectEnd=2000''\<rparr>"

definition same_coords_feature :: feature where
  "same_coords_feature = \<lparr>f_type = ''CDS'', f_start = 1000, f_end = 2000, f_strand = ''+'',
                          f_id = ''g0'', f_product = ''N/A''\<rparr>"

definition boundary_feature :: feature where
  "boundary_feature = \<lparr>f_type = ''gene'', f_start = 1900, f_end = 2100, f_strand = ''-'',
                       f_id = ''g1'', f_product = ''N/A''\<rparr>"

definition outside_feature :: feature where
  "outside_feature = \<lparr>f_type = ''gene'', f_start = 1902, f_end = 2100, f_strand = ''+'',
                      f_id = ''g2'', f_product = ''N/A''\<rparr>"

definition scenario_db :: annotations_db where
  "scenario_db = [''S1'' \<mapsto> [''C1'' \<mapsto> [same_coords_feature, boundary_feature, outside_feature]]]"

text \<open>
  The same layout with coordinates beyond \<open>2 ^ 53\<close>, where neighbouring midpoints round
  to the same float, and with coordinates too large for a float.
\<close>

definition wide_goi :: goi where
  "wide_goi = \<lparr>g_strain = ''S1'', g_contig = ''C1'', g_start = 0,
               g_end = 18014398509481986, g_header = ''>S1|contig=C1''\<rparr>"

definition wide_db :: annotations_db where
  "wide_db = [''S1'' \<mapsto> [''C1'' \<mapsto>
     [\<lparr>f_type = ''gene'', f_start = 0, f_end = 18014398509481984, f_strand = ''+'',
       f_id = ''g1'', f_product = ''N/A''\<rparr>]]]"

definition huge_goi :: goi where
  "huge_goi = \<lparr>g_strain = ''S1'', g_contig = ''C1'', g_start = 0,
               g_end = 10 ^ 400, g_header = ''>S1|contig=C1''\<rparr>"

text \<open>The records a call leaves behind: none when it raised.\<close>

definition emitted :: "py_error + neighbor_record list \<Rightarrow> neighbor_record list" where
  "emitted r = (case r of Inl e \<Rightarrow> [] | Inr results \<Rightarrow> results)"

text \<open>
  The magnitude up to which coordinates and window size keep every midpoint and window
  bound of lines 136 to 153 exact as a float.
\<close>

definition exact_bound :: int where
  "exact_bound = 2 ^ 51"

text \<open>The feature list a gene of interest resolves to, if its strain and contig are known.\<close>

definition resolves :: "annotations_db \<Rightarrow> goi \<Rightarrow> feature list option" where
  "resolves db g = (case db (g_strain g) of None \<Rightarrow> None | Some sa \<Rightarrow> sa (g_contig g))"

subsection \<open>Neighbour tables\<close>

definition row_key :: "row \<Rightarrow> string option \<times> string option" where
  "row_key r = (r ''goi_strain'', r ''neighbor_id'')"

text \<open>A row whose strain or neighbour field is missing or empty.\<close>

definition row_incomplete :: "row \<Rightarrow> bool" where
  "row_incomplete r = (r ''goi_strain'' = None \<or> r ''goi_strain'' = Some [] \<or>
                       r ''neighbor_id'' = None \<or> r ''neighbor_id'' = Some [])"

text \<open>
  The deduplicated table: a row is dropped when an earlier row has the same
  \<open>(goi_strain, neighbor_id)\<close> pair.
\<close>

fun dedup_from :: "(string option \<times> string option) list \<Rightarrow> row list \<Rightarrow> row list" where
  "dedup_from seen [] = []"
| "dedup_from seen (r # rs) =
     (if row_key r \<in> set seen then dedup_from seen rs
      else r # dedup_from (row_key r # seen) rs)"

definition dedup_rows :: "row list \<Rightarrow> row list" where
  "dedup_rows rows = dedup_from [] rows"

text \<open>The valid \<open>(strain, neighbour)\<close> pairs of a table.\<close>

definition pairs :: "row list \<Rightarrow> (string \<times> string) set" where
  "pairs rows = {(s, n). (Some s, Some n) \<in> row_key ` set rows \<and> s \<noteq> [] \<and> n \<noteq> []}"

definition group_of :: "groups \<Rightarrow> string \<Rightarrow> string set" where
  "group_of d k = Mapping.lookup_default {} d k"

definition max_group_size :: "groups \<Rightarrow> nat" where
  "max_group_size d = Max ((\<lambda>k. card (group_of d k)) ` Mapping.keys d)"

text \<open>A row of a summary: key, count, the sorted members, then empty cells up to the width.\<close>

definition padded_row :: "groups \<Rightarrow> string \<Rightarrow> cell list" where
  "padded_row d k =
     [Str k, Num (int (card (group_of d k)))] @ map Str (sorted_list_of_set (group_of d k))
       @ replicate (max_group_size d - card (group_of d k)) (Str [])"

text \<open>
  How often member \<open>m\<close> is listed in the data rows of a summary table whose key is
  \<open>k\<close> (the key and the count are the first two cells of a row).
\<close>

definition listed :: "cell list list \<Rightarrow> string \<Rightarrow> string \<Rightarrow> nat" where
  "listed table k m =
     sum_list (map (\<lambda>r. if take 1 r = [Str k] then count_list (drop 2 r) (Str m) else 0)
                   (tl table))"

definition table_row :: "string \<Rightarrow> string \<Rightarrow> row" where
  "table_row strain neighbor = [''goi_strain'' \<mapsto> strain, ''neighbor_id'' \<mapsto> neighbor]"

text \<open>The three-row table of the aggregation scenario, and the same with a row repeated.\<close>

definition scenario_rows :: "row list" where
  "scenario_rows = [table_row ''S1'' ''G1'', table_row ''S1'' ''G2'', table_row ''S2'' ''G1'']"

definition duplicated_rows :: "row list" where
  "duplicated_rows = [table_row ''S1'' ''G1'', table_row ''S1'' ''G2'', table_row ''S1'' ''G1'',
                      table_row ''S2'' ''G1'']"

section \<open>Properties of stage 1\<close>

subsection \<open>Splitting and attribute lookup\<close>

lemma py_split_ne: "py_split sep s \<noteq> []"
  by (induction sep s rule: py_split.induct) (auto split: list.splits)

lemma py_split_unfold:
  "tok \<noteq> [] \<Longrightarrow> py_split tok s =
     before_first tok s # (if py_in tok s then py_split tok (after_first tok s) else [])"
proof (induction tok s rule: py_split.induct)
  case (1 sep)
  then show ?case by (simp add: startswith_def)
next
  case (2 sep c cs)
  show ?case
  proof (cases "startswith (c # cs) sep")
    case True
    have "drop (length sep - 1) cs = drop (length sep) (c # cs)"
      using 2(3) by (cases sep) auto
    with True 2 show ?thesis by simp
  next
    case False
    with 2 show ?thesis by (auto split: list.splits)
  qed
qed

lemma hd_py_split: "tok \<noteq> [] \<Longrightarrow> hd (py_split tok s) = before_first tok s"
  by (subst py_split_unfold) auto

lemma before_first_char: "before_first [d] s = takeWhile (\<lambda>c. c \<noteq> d) s"
  by (induction s) (auto simp: startswith_def)

lemma attr_value_present:
  assumes "tok \<noteq> []" "py_in tok a"
  shows "attr_value tok a =
           Inr (takeWhile (\<lambda>c. c \<noteq> CHR '';'') (before_first tok (after_first tok a)))"
proof -
  have 1: "py_split tok a = before_first tok a # py_split tok (after_first tok a)"
    using assms by (subst py_split_unfold) auto
  have 2: "py_split tok (after_first tok a) \<noteq> []" by (rule py_split_ne)
  have 3: "py_index (py_split tok a) 1 = Inr (before_first tok (after_first tok a))"
    using 1 2 hd_py_split[OF assms(1), of "after_first tok a"]
    by (cases "py_split tok (after_first tok a)") (auto simp: py_index_def)
  have 4: "py_index (py_split '';'' r) 0 = Inr (takeWhile (\<lambda>c. c \<noteq> CHR '';'') r)" for r
    using py_split_ne[of "'';''" r] hd_py_split[of "'';''" r]
    by (cases "py_split '';'' r") (auto simp: py_index_def before_first_char)
  show ?thesis using assms(2) 3 4 by (simp add: attr_value_def)
qed

text \<open>
  C10, as stated, at the attribute text \<open>ID=aID=b;x\<close>: the text following the first
  \<open>ID=\<close> up to the next semicolon is \<open>aID=b\<close>, but the identifier taken is \<open>a\<close>,
  because \<open>split("ID=")[1]\<close> also ends at the next occurrence of the token.
\<close>

theorem attr_value_stops_at_repeated_token:
  "takeWhile (\<lambda>c. c \<noteq> CHR '';'') (after_first ''ID='' ''ID=aID=b;x'') = ''aID=b'' \<and>
   attr_value ''ID='' ''ID=aID=b;x'' = Inr ''a''"
  by code_simp

text \<open>
  C10, amended: when the token occurs in the attribute text (anywhere, also inside a
  longer key), the value taken is the text following its first occurrence, up to the next
  semicolon, the next occurrence of the token or the end of the field, whichever comes
  first; when the token does not occur, the value is the sentinel \<open>N/A\<close>. This holds for
  \<open>ID=\<close> and \<open>product=\<close> alike, and no \<open>IndexError\<close> is raised.
\<close>

theorem attr_value_by_substring:
  "(token \<noteq> [] \<and> py_in token attributes_str \<longrightarrow>
      attr_value token attributes_str =
        Inr (takeWhile (\<lambda>c. c \<noteq> CHR '';'')
               (before_first token (after_first token attributes_str)))) \<and>
   (\<not> py_in token attributes_str \<longrightarrow> attr_value token attributes_str = Inr ''N/A'')"
  by (auto simp: attr_value_present) (simp add: attr_value_def)

theorem attr_value_by_substring_witness:
  "''ID='' \<noteq> [] \<and> py_in ''ID='' ''Parent_ID=p7;Name=x'' \<and>
   attr_value ''ID='' ''Parent_ID=p7;Name=x'' = Inr ''p7'' \<and>
   \<not> py_in ''ID='' ''Name=x;locus=7'' \<and>
   attr_value ''ID='' ''Name=x;locus=7'' = Inr ''N/A''"
proof -
  have h1: "''ID='' \<noteq> [] \<and> py_in ''ID='' ''Parent_ID=p7;Name=x''" by code_simp
  have h2: "\<not> py_in ''ID='' ''Name=x;locus=7''" by code_simp
  have v: "takeWhile (\<lambda>c. c \<noteq> CHR '';'')
      (before_first ''ID='' (after_first ''ID='' ''Parent_ID=p7;Name=x'')) = ''p7''"
    by code_simp
  from attr_value_by_substring[of "''ID=''" "''Parent_ID=p7;Name=x''"] h1
  have a: "attr_value ''ID='' ''Parent_ID=p7;Name=x'' = Inr ''p7''"
    unfolding v by blast
  from attr_value_by_substring[of "''ID=''" "''Name=x;locus=7''"] h2
  have b: "attr_value ''ID='' ''Name=x;locus=7'' = Inr ''N/A''" by blast
  show ?thesis using h1 h2 a b by blast
qed

subsection \<open>Rows that do not parse\<close>

text \<open>
  C2: a gene row with nine tab-separated columns whose start column is \<open>abc\<close> is neither
  skipped nor filled with a sentinel: \<open>int\<close> raises \<open>ValueError\<close> and \<open>parse_gff\<close>
  passes it on.
\<close>

theorem parse_gff_non_integer_start_raises:
  "length (py_split [TAB] (strip bad_start_line)) = 9 \<and>
   raised (parse_gff (\<lambda>p. Inr [bad_start_line]) ''ann/S1/a.gff'') = Some ValueError"
  by code_simp

text \<open>
  C3: with the FASTA file missing, stage 1 ends in the \<open>FileNotFoundError\<close> that
  \<open>open\<close> raised; nothing catches it.
\<close>

theorem extract_main_missing_fasta_raises:
  "raised (extract_main (\<lambda>p. Inl FileNotFoundError) w ''goi.fasta'' window)
     = Some FileNotFoundError"
  by (simp add: extract_main_def parse_goi_fasta_def raised_def)


subsection \<open>The annotation index\<close>

lemma load_entries_append:
  "load_entries fs db (xs @ ys) =
     (case load_entries fs db xs of Inl e \<Rightarrow> Inl e | Inr db' \<Rightarrow> load_entries fs db' ys)"
  by (induction xs arbitrary: db) (auto split: sum.splits)

lemma load_files_entries:
  "load_files fs root_dir db files =
     load_entries fs db (map (\<lambda>file. (basename root_dir, path_join root_dir file))
           (filter (\<lambda>file. endswith file ''.gff'') files))"
  by (induction files arbitrary: db) (auto split: sum.splits)

lemma load_walk_entries: "load_walk fs db w = load_entries fs db (gff_entries w)"
  by (induction w arbitrary: db)
     (auto simp: gff_entries_def load_files_entries load_entries_append split: sum.splits)

lemma load_entries_other:
  "load_entries fs db es = Inr db' \<Longrightarrow> s \<notin> fst ` set es \<Longrightarrow> db' s = db s"
  by (induction es arbitrary: db) (auto split: sum.splits)

text \<open>
  C1, as stated, at a strain directory \<open>ann/S1\<close> holding \<open>a.gff\<close> (contig \<open>c1\<close>) and
  \<open>b.gff\<close> (contig \<open>c2\<close>): both files parse and each has its contig, the walk loads
  without an error, but the final entry of \<open>S1\<close> has \<open>c2\<close> only.
\<close>

theorem two_gff_files_first_contig_lost:
  "contig_lookup (parse_gff two_file_fs ''ann/S1/a.gff'') ''c1'' \<noteq> None \<and>
   contig_lookup (parse_gff two_file_fs ''ann/S1/b.gff'') ''c2'' \<noteq> None \<and>
   raised (load_all_annotations two_file_fs two_file_walk) = None \<and>
   index_lookup (load_all_annotations two_file_fs two_file_walk) ''S1'' ''c2'' \<noteq> None \<and>
   index_lookup (load_all_annotations two_file_fs two_file_walk) ''S1'' ''c1'' = None"
  by code_simp

text \<open>
  C1, amended: if two \<open>.gff\<close> files of the walk resolve to the same strain identifier,
  the later file's parse result replaces the strain's entry as a whole: when the walk
  loads without an error, the final entry of the strain is exactly the contig map parsed
  from the last such file, so a contig key that only an earlier file has is not in the
  final index.
\<close>

theorem later_gff_replaces_strain_entry:
  assumes "raised (load_all_annotations fs w) = None"
    and "gff_entries w =
           before @ [(strain_id, earlier)] @ between @ [(strain_id, later)] @ after"
    and "strain_id \<notin> fst ` set after"
  shows "\<exists>db contig_db. load_all_annotations fs w = Inr db \<and>
           parse_gff fs later = Inr contig_db \<and> db strain_id = Some contig_db"
proof -
  let ?pre = "before @ [(strain_id, earlier)] @ between"
  obtain db where db: "load_all_annotations fs w = Inr db"
    using assms(1) by (cases "load_all_annotations fs w") (auto simp: raised_def)
  have eq: "load_entries fs Map.empty (?pre @ (strain_id, later) # after) = Inr db"
    using db assms(2) by (simp add: load_all_annotations_def load_walk_entries)
  then obtain db1 where 2: "load_entries fs db1 ((strain_id, later) # after) = Inr db"
    unfolding load_entries_append[of fs Map.empty ?pre] by (auto split: sum.splits)
  then obtain contig_db where 3: "parse_gff fs later = Inr contig_db"
    and 4: "load_entries fs (db1(strain_id \<mapsto> contig_db)) after = Inr db"
    by (auto split: sum.splits)
  from load_entries_other[OF 4 assms(3)] have "db strain_id = Some contig_db" by simp
  with db 3 show ?thesis by blast
qed

theorem later_gff_replaces_strain_entry_witness:
  "raised (load_all_annotations two_file_fs two_file_walk) = None \<and>
   gff_entries two_file_walk =
     [] @ [(''S1'', ''ann/S1/a.gff'')] @ [] @ [(''S1'', ''ann/S1/b.gff'')] @ [] \<and>
   ''S1'' \<notin> fst ` set ([] :: (string \<times> string) list) \<and>
   (\<exists>db contig_db. load_all_annotations two_file_fs two_file_walk = Inr db \<and>
      parse_gff two_file_fs ''ann/S1/b.gff'' = Inr contig_db \<and> db ''S1'' = Some contig_db)"
proof -
  have h1: "raised (load_all_annotations two_file_fs two_file_walk) = None" by code_simp
  have h2: "gff_entries two_file_walk =
     [] @ [(''S1'', ''ann/S1/a.gff'')] @ [] @ [(''S1'', ''ann/S1/b.gff'')] @ []"
    by code_simp
  have h3: "''S1'' \<notin> fst ` set ([] :: (string \<times> string) list)" by simp
  from later_gff_replaces_strain_entry[OF h1 h2 h3] h1 h2 h3 show ?thesis by blast
qed

subsection \<open>Floats that are exact\<close>

lemma ilog2_lower:
  assumes "x \<noteq> 0"
  shows "power_int 2 (ilog2 x) \<le> \<bar>x\<bar>"
proof -
  obtain p q where pq: "quotient_of \<bar>x\<bar> = (p, q)" by (cases "quotient_of \<bar>x\<bar>")
  then have q: "0 < q" and x: "\<bar>x\<bar> = of_int p / of_int q"
    by (auto simp: quotient_of_denom_pos quotient_of_div)
  have p: "0 < p"
  proof -
    have "0 < \<bar>x\<bar>" using assms by simp
    then have "0 < (of_int p :: rat) / of_int q" using x by simp
    then show ?thesis using q by (simp add: zero_less_divide_iff)
  qed
  define d where "d = bitlen p - bitlen q"
  show ?thesis
  proof (cases "q * 2 ^ nat d \<le> p * 2 ^ nat (- d)")
    case True
    then have e: "ilog2 x = d" by (simp add: ilog2_def pq d_def)
    from True have "(of_int (q * 2 ^ nat d) :: rat) \<le> of_int (p * 2 ^ nat (- d))"
      by (simp only: of_int_le_iff)
    then have "(of_int q :: rat) * 2 ^ nat d \<le> of_int p * 2 ^ nat (- d)" by simp
    then have "(2::rat) ^ nat d / 2 ^ nat (- d) \<le> of_int p / of_int q"
      using q by (simp add: field_simps)
    moreover have "power_int (2::rat) d = 2 ^ nat d / 2 ^ nat (- d)"
      by (cases "0 \<le> d") (simp_all add: power_int_def field_simps)
    ultimately show ?thesis using e x by simp
  next
    case False
    then have e: "ilog2 x = d - 1" by (simp add: ilog2_def pq d_def)
    have bp: "2 ^ nat (bitlen p - 1) \<le> p" using bitlen_bounds[OF p] by simp
    have bq: "q < 2 ^ nat (bitlen q)" using bitlen_bounds[OF q] by simp
    have p1: "1 \<le> bitlen p" using p by (simp add: bitlen_alt_def)
    have q0: "0 \<le> bitlen q" by (rule bitlen_nonneg)
    have "d - 1 = (bitlen p - 1) - bitlen q" by (simp add: d_def)
    then have "power_int (2::rat) (d - 1)
        = power_int 2 (bitlen p - 1) / power_int 2 (bitlen q)"
      by (simp only: power_int_diff[of "2::rat", simplified])
    also have "\<dots> = 2 ^ nat (bitlen p - 1) / 2 ^ nat (bitlen q)"
      using p1 q0 by (simp add: power_int_def)
    also have "\<dots> \<le> of_int p / of_int q"
    proof (rule frac_le)
      show "(0::rat) \<le> of_int p" using p by simp
      have "(of_int (2 ^ nat (bitlen p - 1)) :: rat) \<le> of_int p"
        using bp by (simp only: of_int_le_iff)
      then show "(2::rat) ^ nat (bitlen p - 1) \<le> of_int p" by simp
      show "(0::rat) < of_int q" using q by simp
      have "(of_int q :: rat) \<le> of_int (2 ^ nat (bitlen q))"
        using bq by (simp only: of_int_le_iff)
      then show "(of_int q :: rat) \<le> 2 ^ nat (bitlen q)" by simp
    qed
    finally show ?thesis using e x by simp
  qed
qed

lemma round_half_even_int: "round_half_even (of_int j) = j"
  by (simp add: round_half_even_def)

text \<open>A multiple of one half with at most 53 bits is a float.\<close>

lemma round_double_half:
  assumes "\<bar>k\<bar> \<le> 2 ^ 53"
  shows "round_double (of_int k / 2) = Finite (of_int k / 2)"
proof (cases "k = 0")
  case True
  then show ?thesis by (simp add: round_double_def)
next
  case False
  define x :: rat where "x = of_int k / 2"
  have x0: "x \<noteq> 0" using False by (simp add: x_def)
  have "(of_int \<bar>k\<bar> :: rat) \<le> of_int (2 ^ 53)" using assms by (simp only: of_int_le_iff)
  then have xb: "\<bar>x\<bar> \<le> 2 ^ 52" by (simp add: x_def)
  define n where "n = max (ilog2 x) (- 1022) - 52"
  have p52: "power_int (2::rat) 52 = 2 ^ 52" by (simp add: power_int_def)
  have lo: "power_int (2::rat) (ilog2 x) \<le> \<bar>x\<bar>" by (rule ilog2_lower[OF x0])
  have "power_int (2::rat) (ilog2 x) \<le> power_int 2 52"
    unfolding p52 using lo xb by (rule order_trans)
  then have e: "ilog2 x \<le> 52" by (rule power_int_le_imp_le_exp[rotated]) simp_all
  then have n0: "n \<le> 0" by (simp add: n_def)
  have "\<exists>j :: int. x / power_int 2 n = of_int j"
  proof (cases "n = 0")
    case True
    then have "ilog2 x = 52" using e by (simp add: n_def)
    then have "2 ^ 52 \<le> \<bar>x\<bar>" using lo p52 by simp
    then have "\<bar>x\<bar> = 2 ^ 52" using xb by (rule order_antisym[rotated])
    then have "x = 2 ^ 52 \<or> x = - (2 ^ 52)" by (simp only: abs_eq_iff')
    then have "x = of_int (2 ^ 52) \<or> x = of_int (- (2 ^ 52))" by simp
    then have "\<exists>j :: int. x = of_int j" by blast
    then show ?thesis using True by simp
  next
    case False
    then have neg: "n < 0" using n0 by simp
    define m where "m = nat (- n) - 1"
    have n_eq: "n = - int (Suc m)" using neg by (simp add: m_def)
    have "power_int (2::rat) n = inverse (2 ^ Suc m)"
      unfolding n_eq by (simp only: power_int_minus power_int_of_nat)
    then have "x / power_int 2 n = x * 2 ^ Suc m"
      by (simp only: divide_inverse inverse_inverse_eq)
    also have "\<dots> = of_int (k * 2 ^ m)" by (simp add: x_def)
    finally show ?thesis by blast
  qed
  then obtain j :: int where j: "x / power_int 2 n = of_int j" by blast
  have pn: "power_int (2::rat) n \<noteq> 0" by simp
  have "of_int j * power_int 2 n = x" using j pn by (simp add: field_simps)
  then have y: "of_int (round_half_even (x / power_int 2 n)) * power_int 2 n = x"
    by (simp only: j round_half_even_int)
  have big: "\<not> (2::rat) ^ 1024 \<le> \<bar>x\<bar>" using xb by simp
  have "round_double x = Finite x"
    unfolding round_double_def Let_def n_def[symmetric] y using x0 big by simp
  then show ?thesis by (simp only: x_def)
qed

lemma py_true_div_2_exact:
  "\<bar>n\<bar> \<le> 2 ^ 53 \<Longrightarrow> py_true_div n 2 = Inr (Finite (of_int n / 2))"
  by (simp add: py_true_div_def round_double_half)

lemma py_float_of_int_exact:
  assumes "\<bar>n\<bar> \<le> 2 ^ 52"
  shows "py_float_of_int n = Inr (Finite (of_int n))"
proof -
  have "\<bar>2 * n\<bar> \<le> 2 ^ 53" using assms by simp
  from round_double_half[OF this] have "round_double (of_int n) = Finite (of_int n)" by simp
  then show ?thesis by (simp add: py_float_of_int_def)
qed

lemma float_add_exact:
  assumes "\<bar>i + 2 * j\<bar> \<le> 2 ^ 53"
  shows "float_add (Finite (of_int i / 2)) (Finite (of_int j))
           = Finite (of_int i / 2 + of_int j)"
proof -
  have eq: "(of_int i / 2 + of_int j :: rat) = of_int (i + 2 * j) / 2" by simp
  show ?thesis unfolding float_add.simps eq by (rule round_double_half[OF assms])
qed

lemma float_sub_exact:
  assumes "\<bar>i - 2 * j\<bar> \<le> 2 ^ 53"
  shows "float_sub (Finite (of_int i / 2)) (Finite (of_int j))
           = Finite (of_int i / 2 - of_int j)"
proof -
  have eq: "(of_int i / 2 + - of_int j :: rat) = of_int (i - 2 * j) / 2" by simp
  have "float_sub (Finite (of_int i / 2)) (Finite (of_int j))
      = Finite (of_int i / 2 + - of_int j)"
    unfolding float_sub_def float_neg.simps float_add.simps eq
    by (rule round_double_half[OF assms])
  then show ?thesis by simp
qed

lemma ilog2_upper:
  assumes "x \<noteq> 0"
  shows "\<bar>x\<bar> < power_int 2 (ilog2 x + 1)"
proof -
  obtain p q where pq: "quotient_of \<bar>x\<bar> = (p, q)" by (cases "quotient_of \<bar>x\<bar>")
  then have q: "0 < q" and x: "\<bar>x\<bar> = of_int p / of_int q"
    by (auto simp: quotient_of_denom_pos quotient_of_div)
  have p: "0 < p"
  proof -
    have "0 < \<bar>x\<bar>" using assms by simp
    then have "0 < (of_int p :: rat) / of_int q" using x by simp
    then show ?thesis using q by (simp add: zero_less_divide_iff)
  qed
  define d where "d = bitlen p - bitlen q"
  have pd: "power_int (2::rat) d = 2 ^ nat d / 2 ^ nat (- d)"
    by (cases "0 \<le> d") (simp_all add: power_int_def field_simps)
  show ?thesis
  proof (cases "q * 2 ^ nat d \<le> p * 2 ^ nat (- d)")
    case False
    then have e: "ilog2 x = d - 1" by (simp add: ilog2_def pq d_def)
    from False have "p * 2 ^ nat (- d) < q * 2 ^ nat d" by simp
    then have "(of_int (p * 2 ^ nat (- d)) :: rat) < of_int (q * 2 ^ nat d)"
      by (simp only: of_int_less_iff)
    then have "(of_int p :: rat) * 2 ^ nat (- d) < of_int q * 2 ^ nat d" by simp
    then have "of_int p / of_int q < (2::rat) ^ nat d / 2 ^ nat (- d)"
      using q by (simp add: field_simps)
    then show ?thesis using e x pd by simp
  next
    case True
    then have e: "ilog2 x = d" by (simp add: ilog2_def pq d_def)
    have bp: "p < 2 ^ nat (bitlen p)" using bitlen_bounds[OF p] by simp
    have bq: "2 ^ nat (bitlen q - 1) \<le> q" using bitlen_bounds[OF q] by simp
    have p0: "0 \<le> bitlen p" by (rule bitlen_nonneg)
    have q1: "1 \<le> bitlen q" using q by (simp add: bitlen_alt_def)
    have "d + 1 = bitlen p - (bitlen q - 1)" by (simp add: d_def)
    then have "power_int (2::rat) (d + 1)
        = power_int 2 (bitlen p) / power_int 2 (bitlen q - 1)"
      by (simp only: power_int_diff[of "2::rat", simplified])
    also have "\<dots> = 2 ^ nat (bitlen p) / 2 ^ nat (bitlen q - 1)"
      using p0 q1 by (simp add: power_int_def)
    finally have pw: "power_int (2::rat) (d + 1)
        = 2 ^ nat (bitlen p) / 2 ^ nat (bitlen q - 1)" .
    have "(of_int p :: rat) / of_int q < 2 ^ nat (bitlen p) / 2 ^ nat (bitlen q - 1)"
    proof (rule frac_less)
      show "(0::rat) \<le> of_int p" using p by simp
      have "(of_int p :: rat) < of_int (2 ^ nat (bitlen p))"
        using bp by (simp only: of_int_less_iff)
      then show "(of_int p :: rat) < 2 ^ nat (bitlen p)" by simp
      show "(0::rat) < 2 ^ nat (bitlen q - 1)" by simp
      have "(of_int (2 ^ nat (bitlen q - 1)) :: rat) \<le> of_int q"
        using bq by (simp only: of_int_le_iff)
      then show "(2::rat) ^ nat (bitlen q - 1) \<le> of_int q" by simp
    qed
    then show ?thesis using e x pw by simp
  qed
qed

lemma ilog2_unique:
  assumes "power_int 2 e \<le> \<bar>x\<bar>" "\<bar>x\<bar> < power_int 2 (e + 1)"
  shows "ilog2 x = e"
proof -
  have pos: "(0::rat) < power_int 2 e" by simp
  have x0: "x \<noteq> 0"
  proof
    assume "x = 0"
    then have "power_int (2::rat) e \<le> 0" using assms(1) by simp
    with pos show False by linarith
  qed
  note lo = ilog2_lower[OF x0] and hi = ilog2_upper[OF x0]
  have "\<not> ilog2 x + 1 \<le> e"
  proof
    assume "ilog2 x + 1 \<le> e"
    then have "power_int (2::rat) (ilog2 x + 1) \<le> power_int 2 e"
      by (intro power_int_increasing) simp_all
    with hi assms(1) show False by simp
  qed
  moreover have "\<not> e + 1 \<le> ilog2 x"
  proof
    assume "e + 1 \<le> ilog2 x"
    then have "power_int (2::rat) (e + 1) \<le> power_int 2 (ilog2 x)"
      by (intro power_int_increasing) simp_all
    with lo assms(2) show False by simp
  qed
  ultimately show ?thesis by simp
qed

text \<open>Rounding a number whose binary exponent is known.\<close>

lemma round_double_at:
  assumes "power_int 2 e \<le> \<bar>x\<bar>" "\<bar>x\<bar> < power_int 2 (e + 1)" "- 1022 \<le> e"
  shows "round_double x =
     (if 2 ^ 1024 \<le> \<bar>of_int (round_half_even (x / power_int 2 (e - 52))) * power_int 2 (e - 52) :: rat\<bar>
      then (if 0 < x then PosInf else NegInf)
      else Finite (of_int (round_half_even (x / power_int 2 (e - 52))) * power_int 2 (e - 52)))"
proof -
  have pos: "(0::rat) < power_int 2 e" by simp
  have x0: "x \<noteq> 0"
  proof
    assume "x = 0"
    then have "power_int (2::rat) e \<le> 0" using assms(1) by simp
    with pos show False by linarith
  qed
  have m: "max (ilog2 x) (- 1022) = e"
    using ilog2_unique[OF assms(1,2)] assms(3) by simp
  show ?thesis unfolding round_double_def Let_def m using x0 by simp
qed

lemma round_tie_example: "round_double 9007199254740993 = Finite 9007199254740992"
proof -
  have f: "\<lfloor>9007199254740993 / 2 :: rat\<rfloor> = 4503599627370496"
    by (rule floor_unique) simp_all
  show ?thesis
    by (subst round_double_at[where e = 53]) (simp_all add: round_half_even_def Let_def f)
qed

lemma round_2_53: "round_double 9007199254740992 = Finite 9007199254740992"
proof -
  have f: "\<lfloor>9007199254740992 / 2 :: rat\<rfloor> = 4503599627370496"
    by (rule floor_unique) simp_all
  show ?thesis
    by (subst round_double_at[where e = 53]) (simp_all add: round_half_even_def Let_def f)
qed

lemma round_half_even_ge_floor: "\<lfloor>y\<rfloor> \<le> round_half_even y"
  by (simp add: round_half_even_def Let_def)

text \<open>From \<open>2 ^ 1024\<close> on there is no float.\<close>

lemma round_double_overflow:
  assumes "2 ^ 1024 \<le> x"
  shows "round_double x = PosInf"
proof -
  have xpos: "0 < x" using assms by (rule less_le_trans[rotated]) simp
  then have x0: "x \<noteq> 0" and ax: "\<bar>x\<bar> = x" by simp_all
  define e where "e = ilog2 x"
  have lo: "power_int 2 e \<le> x" using ilog2_lower[OF x0] by (simp add: e_def ax)
  have hi: "x < power_int 2 (e + 1)" using ilog2_upper[OF x0] by (simp add: e_def ax)
  have p1024: "power_int (2::rat) 1024 = 2 ^ 1024" by (simp only: power_int_def) simp
  have e1024: "1024 \<le> e"
  proof (rule ccontr)
    assume "\<not> 1024 \<le> e"
    then have "e + 1 \<le> 1024" by simp
    then have "power_int (2::rat) (e + 1) \<le> power_int 2 1024"
      by (intro power_int_increasing) simp_all
    with hi assms p1024 show False by linarith
  qed
  define u :: rat where "u = power_int 2 (e - 52)"
  have upos: "0 < u" by (simp add: u_def)
  have "power_int (2::rat) (52 + (e - 52)) = power_int 2 52 * power_int 2 (e - 52)"
    by (rule power_int_add) simp
  then have "power_int (2::rat) e = power_int 2 52 * power_int 2 (e - 52)" by simp
  then have pe: "power_int (2::rat) e = 2 ^ 52 * u" by (simp add: u_def power_int_def)
  then have "2 ^ 52 * u \<le> x" using lo by simp
  then have "(2::rat) ^ 52 \<le> x / u" using upos by (simp add: field_simps)
  then have "(of_int (2 ^ 52) :: rat) \<le> x / u" by simp
  then have "2 ^ 52 \<le> \<lfloor>x / u\<rfloor>" by (simp only: le_floor_iff)
  then have "2 ^ 52 \<le> round_half_even (x / u)"
    using round_half_even_ge_floor[of "x / u"] by linarith
  then have "(of_int (2 ^ 52) :: rat) \<le> of_int (round_half_even (x / u))"
    by (simp only: of_int_le_iff)
  then have "(2::rat) ^ 52 * u \<le> of_int (round_half_even (x / u)) * u"
    using upos by simp
  then have "power_int (2::rat) e \<le> of_int (round_half_even (x / u)) * u"
    by (simp only: pe)
  moreover have "power_int (2::rat) 1024 \<le> power_int 2 e"
    using e1024 by (intro power_int_increasing) simp_all
  ultimately have big: "(2::rat) ^ 1024 \<le> of_int (round_half_even (x / u)) * u"
    using p1024 by linarith
  then have big': "(2::rat) ^ 1024 \<le> \<bar>of_int (round_half_even (x / u)) * u\<bar>"
    by (rule order_trans) simp
  have m: "max (ilog2 x) (- 1022) = e" using e1024 by (simp add: e_def)
  show ?thesis
    unfolding round_double_def Let_def m u_def[symmetric] using x0 xpos big' by simp
qed

lemma py_true_div_2_overflow:
  assumes "2 ^ 1025 \<le> n"
  shows "py_true_div n 2 = Inl OverflowError"
proof -
  have "(of_int (2 ^ 1025) :: rat) \<le> of_int n" using assms by (simp only: of_int_le_iff)
  then have "(2::rat) ^ 1024 \<le> of_int n / 2" by simp
  from round_double_overflow[OF this] show ?thesis by (simp add: py_true_div_def)
qed

subsection \<open>The neighbour search\<close>

lemma make_record_inj: "make_record g gene = make_record g' gene' \<Longrightarrow> g = g' \<and> gene = gene'"
  by (cases g, cases g', cases gene, cases gene') (simp add: make_record_def)

lemma scan_contig_set:
  "scan_contig g ws we genes = Inr found \<Longrightarrow>
     set found = make_record g ` {gene \<in> set genes.
        \<not> (f_start gene = g_start g \<and> f_end gene = g_end g) \<and>
        (\<exists>c. py_true_div (f_start gene + f_end gene) 2 = Inr c \<and>
             float_le ws c \<and> float_le c we)}"
proof (induction genes arbitrary: found)
  case Nil
  then show ?case by simp
next
  case (Cons gene genes)
  show ?case
  proof (cases "f_start gene = g_start g \<and> f_end gene = g_end g")
    case True
    then have "scan_contig g ws we genes = Inr found" using Cons.prems by simp
    from Cons.IH[OF this] True show ?thesis by auto
  next
    case False
    then obtain c rest where c: "py_true_div (f_start gene + f_end gene) 2 = Inr c"
      and r: "scan_contig g ws we genes = Inr rest"
      and f: "found = (if float_le ws c \<and> float_le c we then make_record g gene # rest
                       else rest)"
      using Cons.prems by (auto split: sum.splits)
    from Cons.IH[OF r] False c f show ?thesis by auto
  qed
qed

lemma goi_neighbors_records:
  assumes "goi_neighbors g db w = Inr found" "r \<in> set found"
  shows "\<exists>gene. r = make_record g gene \<and> \<not> (f_start gene = g_start g \<and> f_end gene = g_end g)"
proof -
  from assms obtain ws we genes where "scan_contig g ws we genes = Inr found"
    by (auto simp: goi_neighbors_def split: option.splits sum.splits)
  from scan_contig_set[OF this] assms(2) show ?thesis by auto
qed

lemma find_neighbors_set:
  "find_neighbors gois db w = Inr results \<Longrightarrow>
     set results = (\<Union>g \<in> set gois. set (emitted (goi_neighbors g db w))) \<and>
     (\<forall>g \<in> set gois. raised (goi_neighbors g db w) = None)"
proof (induction gois arbitrary: results)
  case Nil
  then show ?case by simp
next
  case (Cons g gois)
  then obtain found later where f: "goi_neighbors g db w = Inr found"
    and l: "find_neighbors gois db w = Inr later" and r: "results = found @ later"
    by (auto split: sum.splits)
  from Cons.IH[OF l] f r show ?case by (simp add: emitted_def raised_def)
qed

lemma goi_neighbors_exact:
  assumes "db (g_strain g) = Some strain_annotations"
    and "strain_annotations (g_contig g) = Some genes"
    and "\<bar>g_start g\<bar> \<le> exact_bound" "\<bar>g_end g\<bar> \<le> exact_bound" "\<bar>w\<bar> \<le> exact_bound"
  shows "goi_neighbors g db w =
     scan_contig g (Finite (of_int (g_start g + g_end g) / 2 - of_int w))
                   (Finite (of_int (g_start g + g_end g) / 2 + of_int w)) genes"
proof -
  have b: "\<bar>g_start g + g_end g\<bar> \<le> 2 ^ 53" "\<bar>w\<bar> \<le> 2 ^ 52"
    "\<bar>g_start g + g_end g - 2 * w\<bar> \<le> 2 ^ 53" "\<bar>g_start g + g_end g + 2 * w\<bar> \<le> 2 ^ 53"
    using assms(3-5) by (simp_all add: exact_bound_def)
  note facts = py_true_div_2_exact[OF b(1)] py_float_of_int_exact[OF b(2)]
    float_sub_exact[OF b(3)] float_add_exact[OF b(4)]
  show ?thesis
    unfolding goi_neighbors_def by (simp only: assms(1,2) option.case sum.case facts)
qed

lemma feature_center_exact:
  assumes "\<bar>f_start gene\<bar> \<le> exact_bound" "\<bar>f_end gene\<bar> \<le> exact_bound"
  shows "py_true_div (f_start gene + f_end gene) 2
           = Inr (Finite (of_int (f_start gene + f_end gene) / 2))"
proof -
  have "\<bar>f_start gene + f_end gene\<bar> \<le> 2 ^ 53" using assms by (simp add: exact_bound_def)
  then show ?thesis by (rule py_true_div_2_exact)
qed

lemma round_double_0: "round_double 0 = Finite 0"
  by (simp add: round_double_def)

lemma scenario_neighbors:
  "find_neighbors [scenario_goi] scenario_db 500
     = Inr [make_record scenario_goi boundary_feature]"
proof -
  have c0: "py_true_div 3000 2 = Inr (Finite 1500)"
    using py_true_div_2_exact[of 3000] by simp
  have c1: "py_true_div 4000 2 = Inr (Finite 2000)"
    using py_true_div_2_exact[of 4000] by simp
  have c2: "py_true_div 4002 2 = Inr (Finite 2001)"
    using py_true_div_2_exact[of 4002] by simp
  have w: "py_float_of_int 500 = Inr (Finite 500)"
    using py_float_of_int_exact[of 500] by simp
  have lo: "float_sub (Finite 1500) (Finite 500) = Finite 1000"
    using float_sub_exact[of 3000 500] by simp
  have hi: "round_double 2000 = Finite 2000"
    using round_double_half[of 4000] by simp
  show ?thesis
    by (simp add: goi_neighbors_def scenario_goi_def scenario_db_def same_coords_feature_def
        boundary_feature_def outside_feature_def c0 c1 c2 w lo hi)
qed

text \<open>
  Above \<open>2 ^ 53\<close> the midpoints 9007199254740993 and 9007199254740992 are the same float,
  so with a window of 0 the feature is reported; with coordinates of 400 digits the
  midpoint of the gene of interest raises \<open>OverflowError\<close>.
\<close>

lemma find_neighbors_rounds_midpoints:
  "map neighbor_id (emitted (find_neighbors [wide_goi] wide_db 0)) = [''g1'']"
proof -
  have c0: "py_true_div 18014398509481986 2 = Inr (Finite 9007199254740992)"
    by (simp add: py_true_div_def round_tie_example)
  have c1: "py_true_div 18014398509481984 2 = Inr (Finite 9007199254740992)"
    by (simp add: py_true_div_def round_2_53)
  have w: "py_float_of_int 0 = Inr (Finite 0)"
    by (simp add: py_float_of_int_def round_double_0)
  have lo: "float_sub (Finite 9007199254740992) (Finite 0) = Finite 9007199254740992"
    by (simp add: float_sub_def round_2_53)
  show ?thesis
    by (simp add: goi_neighbors_def wide_goi_def wide_db_def emitted_def make_record_def
        c0 c1 w lo round_2_53)
qed

lemma find_neighbors_overflow:
  "raised (find_neighbors [huge_goi] wide_db 0) = Some OverflowError"
proof -
  have "py_true_div (10 ^ 400) 2 = Inl OverflowError"
    by (rule py_true_div_2_overflow) simp
  then show ?thesis
    by (simp add: goi_neighbors_def huge_goi_def wide_db_def raised_def)
qed

text \<open>
  C4, as stated, in the scenario: the feature with the coordinates of the gene of interest
  is on its contig and its midpoint 1500 lies in the window \<open>[1000, 2000]\<close>, yet it is
  not reported.
\<close>

theorem midpoint_in_window_not_reported:
  "resolves scenario_db scenario_goi
     = Some [same_coords_feature, boundary_feature, outside_feature] \<and>
   (of_int (g_start scenario_goi + g_end scenario_goi) / 2 :: rat) - of_int 500
     \<le> of_int (f_start same_coords_feature + f_end same_coords_feature) / 2 \<and>
   (of_int (f_start same_coords_feature + f_end same_coords_feature) / 2 :: rat)
     \<le> of_int (g_start scenario_goi + g_end scenario_goi) / 2 + of_int 500 \<and>
   raised (find_neighbors [scenario_goi] scenario_db 500) = None \<and>
   make_record scenario_goi same_coords_feature
     \<notin> set (emitted (find_neighbors [scenario_goi] scenario_db 500))"
  unfolding scenario_neighbors
  by (simp add: resolves_def scenario_goi_def scenario_db_def same_coords_feature_def
      boundary_feature_def make_record_def emitted_def raised_def)

text \<open>
  C4, amended: when the search completes, then for every gene of interest with a
  resolvable (strain, contig) and every feature on that contig whose \<open>(start, end)\<close>
  differs from the gene of interest's own, provided the coordinates of both and the window
  size are at most \<open>2 ^ 51\<close> in absolute value (so that the float midpoints and window
  bounds are exact), the feature is reported as a neighbour if and only if its midpoint
  \<open>(start + end) / 2\<close> lies in the closed interval
  \<open>[goi_center - window_size, goi_center + window_size]\<close>; a midpoint exactly on either
  boundary is included, whatever the extent of the feature.
\<close>

theorem neighbor_iff_midpoint_in_window:
  assumes "find_neighbors gois db window_size = Inr results"
    and "g \<in> set gois"
    and "db (g_strain g) = Some strain_annotations"
    and "strain_annotations (g_contig g) = Some genes"
    and "gene \<in> set genes"
    and "\<not> (f_start gene = g_start g \<and> f_end gene = g_end g)"
    and "\<bar>g_start g\<bar> \<le> exact_bound" and "\<bar>g_end g\<bar> \<le> exact_bound"
    and "\<bar>f_start gene\<bar> \<le> exact_bound" and "\<bar>f_end gene\<bar> \<le> exact_bound"
    and "\<bar>window_size\<bar> \<le> exact_bound"
  shows "make_record g gene \<in> set results \<longleftrightarrow>
     (of_int (g_start g + g_end g) / 2 - of_int window_size
        \<le> (of_int (f_start gene + f_end gene) / 2 :: rat) \<and>
      (of_int (f_start gene + f_end gene) / 2 :: rat)
        \<le> of_int (g_start g + g_end g) / 2 + of_int window_size)"
proof -
  let ?lo = "of_int (g_start g + g_end g) / 2 - of_int window_size :: rat"
  let ?hi = "of_int (g_start g + g_end g) / 2 + of_int window_size :: rat"
  let ?c = "of_int (f_start gene + f_end gene) / 2 :: rat"
  note fs = find_neighbors_set[OF assms(1)]
  from fs assms(2) obtain found where found: "goi_neighbors g db window_size = Inr found"
    by (cases "goi_neighbors g db window_size") (auto simp: raised_def)
  have scan: "scan_contig g (Finite ?lo) (Finite ?hi) genes = Inr found"
    using goi_neighbors_exact[where g = g and db = db and w = window_size
        and strain_annotations = strain_annotations and genes = genes,
        OF assms(3,4,7,8,11)] found by simp
  note center = feature_center_exact[OF assms(9,10)]
  have in_found: "make_record g gene \<in> set found \<longleftrightarrow> (?lo \<le> ?c \<and> ?c \<le> ?hi)"
  proof
    assume "make_record g gene \<in> set found"
    then obtain gene' where g': "make_record g gene = make_record g gene'"
      and c': "\<exists>c. py_true_div (f_start gene' + f_end gene') 2 = Inr c \<and>
                  float_le (Finite ?lo) c \<and> float_le c (Finite ?hi)"
      unfolding scan_contig_set[OF scan] by auto
    from make_record_inj[OF g'] have "gene' = gene" by simp
    with c' center show "?lo \<le> ?c \<and> ?c \<le> ?hi" by simp
  next
    assume "?lo \<le> ?c \<and> ?c \<le> ?hi"
    then have "\<exists>c. py_true_div (f_start gene + f_end gene) 2 = Inr c \<and>
                  float_le (Finite ?lo) c \<and> float_le c (Finite ?hi)"
      using center by simp
    then show "make_record g gene \<in> set found"
      unfolding scan_contig_set[OF scan] using assms(5,6) by blast
  qed
  have "make_record g gene \<in> set results \<longleftrightarrow> make_record g gene \<in> set found"
  proof
    assume "make_record g gene \<in> set results"
    then obtain g' where g': "g' \<in> set gois"
      and m: "make_record g gene \<in> set (emitted (goi_neighbors g' db window_size))"
      using fs by auto
    then obtain found' where f': "goi_neighbors g' db window_size = Inr found'"
      and m': "make_record g gene \<in> set found'"
      by (cases "goi_neighbors g' db window_size") (auto simp: emitted_def)
    from goi_neighbors_records[OF f' m'] obtain gene'
      where "make_record g gene = make_record g' gene'" by blast
    then have "g' = g" by (auto dest: make_record_inj)
    with f' m' found show "make_record g gene \<in> set found" by simp
  next
    assume "make_record g gene \<in> set found"
    then have "make_record g gene \<in> set (emitted (goi_neighbors g db window_size))"
      using found by (simp add: emitted_def)
    with fs assms(2) show "make_record g gene \<in> set results" by blast
  qed
  with in_found show ?thesis by simp
qed

theorem neighbor_iff_midpoint_in_window_witness:
  "find_neighbors [scenario_goi] scenario_db 500
     = Inr [make_record scenario_goi boundary_feature] \<and>
   scenario_goi \<in> set [scenario_goi] \<and>
   scenario_db (g_strain scenario_goi)
     = Some [''C1'' \<mapsto> [same_coords_feature, boundary_feature, outside_feature]] \<and>
   [''C1'' \<mapsto> [same_coords_feature, boundary_feature, outside_feature]] (g_contig scenario_goi)
     = Some [same_coords_feature, boundary_feature, outside_feature] \<and>
   boundary_feature \<in> set [same_coords_feature, boundary_feature, outside_feature] \<and>
   \<not> (f_start boundary_feature = g_start scenario_goi \<and>
      f_end boundary_feature = g_end scenario_goi) \<and>
   \<bar>g_start scenario_goi\<bar> \<le> exact_bound \<and> \<bar>g_end scenario_goi\<bar> \<le> exact_bound \<and>
   \<bar>f_start boundary_feature\<bar> \<le> exact_bound \<and> \<bar>f_end boundary_feature\<bar> \<le> exact_bound \<and>
   \<bar>500 :: int\<bar> \<le> exact_bound \<and>
   (of_int (f_start boundary_feature + f_end boundary_feature) / 2 :: rat)
     = of_int (g_start scenario_goi + g_end scenario_goi) / 2 + of_int 500 \<and>
   make_record scenario_goi boundary_feature
     \<in> set [make_record scenario_goi boundary_feature]"
proof -
  let ?genes = "[same_coords_feature, boundary_feature, outside_feature]"
  note h0 = scenario_neighbors
  have h1: "scenario_goi \<in> set [scenario_goi]" by simp
  have h2: "scenario_db (g_strain scenario_goi) = Some [''C1'' \<mapsto> ?genes]"
    by (simp add: scenario_db_def scenario_goi_def)
  have h3: "[''C1'' \<mapsto> ?genes] (g_contig scenario_goi) = Some ?genes"
    by (simp add: scenario_goi_def)
  have h4: "boundary_feature \<in> set ?genes" by simp
  have h5: "\<not> (f_start boundary_feature = g_start scenario_goi \<and>
      f_end boundary_feature = g_end scenario_goi)"
    by (simp add: boundary_feature_def scenario_goi_def)
  have b1: "\<bar>g_start scenario_goi\<bar> \<le> exact_bound" and b2: "\<bar>g_end scenario_goi\<bar> \<le> exact_bound"
    by (simp_all add: scenario_goi_def exact_bound_def)
  have b3: "\<bar>f_start boundary_feature\<bar> \<le> exact_bound"
    and b4: "\<bar>f_end boundary_feature\<bar> \<le> exact_bound"
    by (simp_all add: boundary_feature_def exact_bound_def)
  have b5: "\<bar>500 :: int\<bar> \<le> exact_bound" by (simp add: exact_bound_def)
  have m: "(of_int (f_start boundary_feature + f_end boundary_feature) / 2 :: rat)
     = of_int (g_start scenario_goi + g_end scenario_goi) / 2 + of_int 500"
    by (simp add: boundary_feature_def scenario_goi_def)
  have "make_record scenario_goi boundary_feature
     \<in> set [make_record scenario_goi boundary_feature]"
    using neighbor_iff_midpoint_in_window[where g = scenario_goi and gois = "[scenario_goi]"
        and db = scenario_db and strain_annotations = "[''C1'' \<mapsto> ?genes]"
        and genes = ?genes and gene = boundary_feature and window_size = 500
        and results = "[make_record scenario_goi boundary_feature]",
        OF h0 h1 h2 h3 h4 h5 b1 b2 b3 b4 b5] m
    by (simp add: boundary_feature_def scenario_goi_def)
  with h0 h1 h2 h3 h4 h5 b1 b2 b3 b4 b5 m show ?thesis by blast
qed

text \<open>
  C5: a feature whose \<open>(start, end)\<close> equals that of a gene of interest is never emitted
  as a neighbour of that gene of interest, whatever the other fields of the feature are
  and however many features share those coordinates.
\<close>

theorem same_coordinates_never_neighbor:
  "f_start gene = g_start g \<and> f_end gene = g_end g \<Longrightarrow>
     make_record g gene \<notin> set (emitted (find_neighbors gois db window_size))"
proof
  assume same: "f_start gene = g_start g \<and> f_end gene = g_end g"
  assume "make_record g gene \<in> set (emitted (find_neighbors gois db window_size))"
  then obtain results where r: "find_neighbors gois db window_size = Inr results"
    and m: "make_record g gene \<in> set results"
    by (cases "find_neighbors gois db window_size") (auto simp: emitted_def)
  from find_neighbors_set[OF r] m obtain g' where
    "make_record g gene \<in> set (emitted (goi_neighbors g' db window_size))" by auto
  then obtain found where f: "goi_neighbors g' db window_size = Inr found"
    and m': "make_record g gene \<in> set found"
    by (cases "goi_neighbors g' db window_size") (auto simp: emitted_def)
  from goi_neighbors_records[OF f m'] obtain gene' where
    e: "make_record g gene = make_record g' gene'"
    and n: "\<not> (f_start gene' = g_start g' \<and> f_end gene' = g_end g')" by blast
  from make_record_inj[OF e] have "g' = g" "gene' = gene" by simp_all
  with n same show False by simp
qed

theorem same_coordinates_never_neighbor_witness:
  "(f_start same_coords_feature = g_start scenario_goi \<and>
    f_end same_coords_feature = g_end scenario_goi) \<and>
   resolves scenario_db scenario_goi
     = Some [same_coords_feature, boundary_feature, outside_feature] \<and>
   raised (find_neighbors [scenario_goi] scenario_db 500) = None \<and>
   make_record scenario_goi same_coords_feature
     \<notin> set (emitted (find_neighbors [scenario_goi] scenario_db 500))"
proof -
  have h: "f_start same_coords_feature = g_start scenario_goi \<and>
    f_end same_coords_feature = g_end scenario_goi"
    by (simp add: same_coords_feature_def scenario_goi_def)
  have r: "resolves scenario_db scenario_goi
     = Some [same_coords_feature, boundary_feature, outside_feature]"
    by (simp add: resolves_def scenario_db_def scenario_goi_def)
  have c: "raised (find_neighbors [scenario_goi] scenario_db 500) = None"
    unfolding scenario_neighbors by (simp add: raised_def)
  from same_coordinates_never_neighbor[OF h, of "[scenario_goi]" scenario_db 500] h r c
  show ?thesis by blast
qed

subsection \<open>Genes of interest\<close>

lemma is_digit_not_space: "is_digit c \<Longrightarrow> \<not> c_isspace c"
  by (auto simp: is_digit_def c_isspace_def)

lemma int_strip_no_space:
  assumes "s \<noteq> []" "\<not> c_isspace (hd s)" "\<not> c_isspace (last s)"
  shows "int_strip s = s"
proof -
  have 1: "dropWhile c_isspace s = s" using assms(1,2) by (cases s) auto
  have "rev s \<noteq> []" "\<not> c_isspace (hd (rev s))" using assms(1,3) by (auto simp: hd_rev)
  then have 2: "dropWhile c_isspace (rev s) = rev s" by (cases "rev s") auto
  show ?thesis by (simp add: int_strip_def 1 2)
qed

lemma digits_from_all:
  "list_all is_digit ds \<Longrightarrow>
     digits_from acc ds = Inr (foldl (\<lambda>acc c. 10 * acc + digit_val c) acc ds)"
  by (induction acc ds rule: digits_from.induct) auto

text \<open>\<open>int\<close> on a run of digits: its value, unless the run is longer than the limit.\<close>

lemma py_int_digits:
  assumes "ds \<noteq> []" "list_all is_digit ds"
  shows "py_int ds = (if length ds \<le> max_str_digits then Inr (decimal ds)
                      else Inl ValueError)"
proof -
  obtain c cs where ds: "ds = c # cs" using assms(1) by (cases ds) auto
  have "is_digit (hd ds)" "is_digit (last ds)"
    using assms by (auto simp: list_all_iff)
  then have s: "int_strip ds = ds"
    using assms(1) by (intro int_strip_no_space) (auto dest: is_digit_not_space)
  have c: "is_digit c" "list_all is_digit cs" using assms(2) ds by auto
  then have n: "c \<noteq> CHR ''-''" "c \<noteq> CHR ''+''" by (auto simp: is_digit_def)
  have f: "filter is_digit ds = ds" using assms(2) by (simp add: list_all_iff)
  have "py_digits ds = (if length ds \<le> max_str_digits then Inr (decimal ds)
                        else Inl ValueError)"
    unfolding py_digits_def f using c ds by (simp add: digits_from_all decimal_def)
  then show ?thesis using n s ds by (simp add: py_int_def)
qed

lemma py_int_too_many_digits:
  assumes "list_all is_digit ds" "max_str_digits < length ds"
  shows "py_int ds = Inl ValueError"
proof -
  have "ds \<noteq> []" using assms(2) by auto
  from py_int_digits[OF this assms(1)] assms(2) show ?thesis by simp
qed

text \<open>A separator character that \<open>str.strip\<close> removes is not skipped by \<open>int\<close>.\<close>

lemma py_int_separator_not_space: "py_int (CHR 0x1C # ''100'') = Inl ValueError"
  by code_simp

lemma coords_here_digits:
  "coords_here s = Some (a, b) \<Longrightarrow>
     a \<noteq> [] \<and> list_all is_digit a \<and> b \<noteq> [] \<and> list_all is_digit b"
  by (auto simp: coords_here_def list_all_iff split: option.splits if_splits
           dest: set_takeWhileD)

lemma lazy_coords_digits:
  "lazy_coords s = Some (a, b) \<Longrightarrow>
     a \<noteq> [] \<and> list_all is_digit a \<and> b \<noteq> [] \<and> list_all is_digit b"
  by (induction s) (auto split: option.splits if_splits dest: coords_here_digits)

lemma match_here_digits:
  "match_here s = Some (x, y, a, b) \<Longrightarrow>
     a \<noteq> [] \<and> list_all is_digit a \<and> b \<noteq> [] \<and> list_all is_digit b"
  by (auto simp: match_here_def split: option.splits if_splits dest: lazy_coords_digits)

lemma search_digits:
  "HEADER_REGEX_search s = Some (x, y, a, b) \<Longrightarrow>
     a \<noteq> [] \<and> list_all is_digit a \<and> b \<noteq> [] \<and> list_all is_digit b"
  by (induction s) (auto split: option.splits dest: match_here_digits)

text \<open>
  What a matching header line gives: the gene of interest with normalized coordinates,
  or the \<open>ValueError\<close> of \<open>int\<close> when a coordinate has more digits than the limit.
\<close>

lemma parse_goi_line_matched:
  assumes "startswith line ''>''"
    and "HEADER_REGEX_search line = Some (strain, contig, raw1, raw2)"
  shows "parse_goi_line line =
     (if length raw1 \<le> max_str_digits \<and> length raw2 \<le> max_str_digits
      then Inr (Some \<lparr>g_strain = strain, g_contig = contig,
            g_start = min (decimal raw1) (decimal raw2),
            g_end = max (decimal raw1) (decimal raw2),
            g_header = strip line\<rparr>)
      else Inl ValueError)"
  using assms search_digits[OF assms(2)] by (simp add: parse_goi_line_def py_int_digits)

lemma parse_goi_line_ordered: "parse_goi_line line = Inr (Some g) \<Longrightarrow> g_start g \<le> g_end g"
  by (auto simp: parse_goi_line_def split: if_splits option.splits sum.splits)

lemma parse_goi_lines_ordered:
  "parse_goi_lines ls = Inr gs \<Longrightarrow> g \<in> set gs \<Longrightarrow> g_start g \<le> g_end g"
  by (induction ls arbitrary: gs)
     (auto split: sum.splits option.splits dest: parse_goi_line_ordered)

text \<open>
  C6: for every header line that matches the pattern, with the two coordinate groups
  \<open>raw1\<close> and \<open>raw2\<close>, the gene of interest stored for the line has
  \<open>start = min raw1 raw2\<close> and \<open>end = max raw1 raw2\<close>; one is stored whenever
  neither group has more than 4300 digits (beyond that \<open>int\<close> raises and nothing is
  stored); and every gene of interest that \<open>parse_goi_fasta\<close> returns has
  \<open>start \<le> end\<close>.
\<close>

theorem parsed_goi_coordinates_normalized:
  "(startswith line ''>'' \<and> HEADER_REGEX_search line = Some (strain, contig, raw1, raw2) \<and>
    parse_goi_line line = Inr (Some stored) \<longrightarrow>
      stored = \<lparr>g_strain = strain, g_contig = contig,
            g_start = min (decimal raw1) (decimal raw2),
            g_end = max (decimal raw1) (decimal raw2),
            g_header = strip line\<rparr>) \<and>
   (startswith line ''>'' \<and> HEADER_REGEX_search line = Some (strain, contig, raw1, raw2) \<and>
    length raw1 \<le> max_str_digits \<and> length raw2 \<le> max_str_digits \<longrightarrow>
      parse_goi_line line = Inr (Some \<lparr>g_strain = strain, g_contig = contig,
            g_start = min (decimal raw1) (decimal raw2),
            g_end = max (decimal raw1) (decimal raw2),
            g_header = strip line\<rparr>)) \<and>
   (parse_goi_fasta fs fasta_file = Inr gois \<and> g \<in> set gois \<longrightarrow> g_start g \<le> g_end g)"
proof (intro conjI impI)
  assume a: "startswith line ''>'' \<and>
    HEADER_REGEX_search line = Some (strain, contig, raw1, raw2) \<and>
    parse_goi_line line = Inr (Some stored)"
  then have m: "startswith line ''>''"
    "HEADER_REGEX_search line = Some (strain, contig, raw1, raw2)" by simp_all
  from a show "stored = \<lparr>g_strain = strain, g_contig = contig,
            g_start = min (decimal raw1) (decimal raw2),
            g_end = max (decimal raw1) (decimal raw2),
            g_header = strip line\<rparr>"
    unfolding parse_goi_line_matched[OF m] by (simp split: if_splits)
next
  assume a: "startswith line ''>'' \<and>
    HEADER_REGEX_search line = Some (strain, contig, raw1, raw2) \<and>
    length raw1 \<le> max_str_digits \<and> length raw2 \<le> max_str_digits"
  then have m: "startswith line ''>''"
    "HEADER_REGEX_search line = Some (strain, contig, raw1, raw2)" by simp_all
  from a show "parse_goi_line line = Inr (Some \<lparr>g_strain = strain, g_contig = contig,
            g_start = min (decimal raw1) (decimal raw2),
            g_end = max (decimal raw1) (decimal raw2),
            g_header = strip line\<rparr>)"
    unfolding parse_goi_line_matched[OF m] by simp
next
  assume "parse_goi_fasta fs fasta_file = Inr gois \<and> g \<in> set gois"
  then show "g_start g \<le> g_end g"
    by (auto simp: parse_goi_fasta_def split: sum.splits dest: parse_goi_lines_ordered)
qed

theorem parsed_goi_coordinates_normalized_witness:
  "startswith reversed_header ''>'' \<and>
   HEADER_REGEX_search reversed_header = Some (''S1'', ''C1'', ''20'', ''10'') \<and>
   length ''20'' \<le> max_str_digits \<and> length ''10'' \<le> max_str_digits \<and>
   parse_goi_line reversed_header = Inr (Some \<lparr>g_strain = ''S1'', g_contig = ''C1'',
       g_start = 10, g_end = 20,
       g_header = ''>S1|contig=C1|len=5_SubjectStart=20_SubjectEnd=10 x''\<rparr>) \<and>
   parse_goi_fasta reversed_fasta ''goi.fasta'' = Inr [\<lparr>g_strain = ''S1'', g_contig = ''C1'',
       g_start = 10, g_end = 20,
       g_header = ''>S1|contig=C1|len=5_SubjectStart=20_SubjectEnd=10 x''\<rparr>] \<and>
   g_start \<lparr>g_strain = ''S1'', g_contig = ''C1'', g_start = 10, g_end = 20,
       g_header = ''>S1|contig=C1|len=5_SubjectStart=20_SubjectEnd=10 x''\<rparr>
     \<le> g_end \<lparr>g_strain = ''S1'', g_contig = ''C1'', g_start = 10, g_end = 20,
       g_header = ''>S1|contig=C1|len=5_SubjectStart=20_SubjectEnd=10 x''\<rparr>"
proof -
  let ?g = "\<lparr>g_strain = ''S1'', g_contig = ''C1'', g_start = 10, g_end = 20,
       g_header = ''>S1|contig=C1|len=5_SubjectStart=20_SubjectEnd=10 x''\<rparr>"
  have h1: "startswith reversed_header ''>''" by code_simp
  have h2: "HEADER_REGEX_search reversed_header = Some (''S1'', ''C1'', ''20'', ''10'')"
    by code_simp
  have h3: "length ''20'' \<le> max_str_digits \<and> length ''10'' \<le> max_str_digits"
    by (simp add: max_str_digits_def)
  have d: "decimal ''20'' = 20" "decimal ''10'' = 10" by code_simp+
  have s: "strip reversed_header = ''>S1|contig=C1|len=5_SubjectStart=20_SubjectEnd=10 x''"
    by code_simp
  have n: "startswith (''ACGT'' @ [NEWLINE]) ''>'' = False" by code_simp
  note t = parsed_goi_coordinates_normalized[of reversed_header "''S1''" "''C1''" "''20''"
      "''10''" ?g reversed_fasta "''goi.fasta''" "[?g]" ?g]
  have l: "parse_goi_line reversed_header = Inr (Some ?g)"
    using t[THEN conjunct2, THEN conjunct1] h1 h2 h3 by (simp add: d s)
  have f: "parse_goi_fasta reversed_fasta ''goi.fasta'' = Inr [?g]"
    using l n by (simp add: parse_goi_fasta_def reversed_fasta_def parse_goi_line_def)
  have o: "g_start ?g \<le> g_end ?g"
    using t[THEN conjunct2, THEN conjunct2] f by simp
  show ?thesis using h1 h2 h3 l f o by blast
qed

section \<open>Properties of stage 2\<close>

subsection \<open>What the two dictionaries hold after reading\<close>

lemma read_rows_snoc: "read_rows (rows @ [r]) = add_row (read_rows rows) r"
  by (simp add: read_rows_def)

lemma lookup_add_member:
  "Mapping.lookup (add_member k v d) k' =
     (if k' = k then Some (insert v (case Mapping.lookup d k of None \<Rightarrow> {} | Some S \<Rightarrow> S))
      else Mapping.lookup d k')"
  by (auto simp: add_member_def Mapping.lookup_update' Mapping.lookup_default_def
           split: option.splits)

lemma pairs_snoc:
  "pairs (rows @ [r]) =
     (if truthy (r ''goi_strain'') \<and> truthy (r ''neighbor_id'')
      then insert (the (r ''goi_strain''), the (r ''neighbor_id'')) (pairs rows)
      else pairs rows)"
  by (auto simp: pairs_def row_key_def truthy_def image_iff split: option.splits)

lemma add_row_valid:
  "r ''goi_strain'' = Some s \<Longrightarrow> r ''neighbor_id'' = Some n \<Longrightarrow> s \<noteq> [] \<Longrightarrow> n \<noteq> [] \<Longrightarrow>
     add_row acc r = (add_member s n (fst acc), add_member n s (snd acc))"
  by (simp add: add_row_def truthy_def)

lemma add_row_invalid:
  "\<not> (truthy (r ''goi_strain'') \<and> truthy (r ''neighbor_id'')) \<Longrightarrow> add_row acc r = acc"
  by (auto simp: add_row_def Let_def)

lemma truthyE: "truthy v \<Longrightarrow> \<exists>s. v = Some s \<and> s \<noteq> []"
  by (cases v) (auto simp: truthy_def)

lemma row_incomplete_iff:
  "row_incomplete r \<longleftrightarrow> \<not> (truthy (r ''goi_strain'') \<and> truthy (r ''neighbor_id''))"
  by (cases "r ''goi_strain''"; cases "r ''neighbor_id''")
     (simp_all add: row_incomplete_def truthy_def)

lemma lookup_read_rows:
  "Mapping.lookup (fst (read_rows rows)) k =
     (if k \<in> Domain (pairs rows) then Some (pairs rows `` {k}) else None) \<and>
   Mapping.lookup (snd (read_rows rows)) n =
     (if n \<in> Range (pairs rows) then Some ((pairs rows)\<inverse> `` {n}) else None)"
proof (induction rows arbitrary: k n rule: rev_induct)
  case Nil
  show ?case by (simp add: read_rows_def pairs_def)
next
  case (snoc r rows)
  show ?case
  proof (cases "truthy (r ''goi_strain'') \<and> truthy (r ''neighbor_id'')")
    case False
    have p: "pairs (rows @ [r]) = pairs rows"
      by (subst pairs_snoc) (use False in auto)
    have a: "read_rows (rows @ [r]) = read_rows rows"
      by (simp only: read_rows_snoc add_row_invalid[OF False])
    show ?thesis unfolding p a by (rule snoc)
  next
    case True
    then obtain s m where sm: "r ''goi_strain'' = Some s" "r ''neighbor_id'' = Some m"
      "s \<noteq> []" "m \<noteq> []" by (auto dest!: truthyE)
    have p: "pairs (rows @ [r]) = insert (s, m) (pairs rows)"
      using True sm by (simp add: pairs_snoc)
    have a: "read_rows (rows @ [r]) =
        (add_member s m (fst (read_rows rows)), add_member m s (snd (read_rows rows)))"
      by (simp add: read_rows_snoc add_row_valid[OF sm])
    have 1: "Mapping.lookup (fst (read_rows (rows @ [r]))) k =
       (if k \<in> Domain (pairs (rows @ [r])) then Some (pairs (rows @ [r]) `` {k}) else None)"
      using snoc[of k n] snoc[of s n]
      unfolding a p by (auto simp: lookup_add_member split: option.splits if_splits)
    have 2: "Mapping.lookup (snd (read_rows (rows @ [r]))) n =
       (if n \<in> Range (pairs (rows @ [r])) then Some ((pairs (rows @ [r]))\<inverse> `` {n})
        else None)"
      using snoc[of k n] snoc[of k m]
      unfolding a p by (auto simp: lookup_add_member split: option.splits if_splits)
    show ?thesis using 1 2 by simp
  qed
qed

lemma finite_pairs: "finite (pairs rows)"
proof -
  have "pairs rows \<subseteq> (\<lambda>(a, b). (the a, the b)) ` (row_key ` set rows)"
    by (force simp: pairs_def)
  then show ?thesis by (rule finite_subset) simp
qed

lemma keys_read_rows:
  "Mapping.keys (fst (read_rows rows)) = Domain (pairs rows)"
  "Mapping.keys (snd (read_rows rows)) = Range (pairs rows)"
  by (auto simp: keys_dom_lookup lookup_read_rows dom_def)

lemma read_rows_cong:
  assumes "pairs rows = pairs rows'"
  shows "read_rows rows = read_rows rows'"
proof (rule prod_eqI)
  show "fst (read_rows rows) = fst (read_rows rows')"
    by (rule mapping_eqI) (simp add: lookup_read_rows assms)
  show "snd (read_rows rows) = snd (read_rows rows')"
    by (rule mapping_eqI) (simp add: lookup_read_rows assms)
qed

lemma keys_dedup_from:
  "row_key ` set (dedup_from seen rows) \<union> set seen = row_key ` set rows \<union> set seen"
  by (induction seen rows rule: dedup_from.induct) auto

lemma pairs_dedup: "pairs (dedup_rows rows) = pairs rows"
  using keys_dedup_from[of "[]" rows] by (simp add: pairs_def dedup_rows_def)

lemma pairs_incomplete:
  assumes "list_all row_incomplete rows"
  shows "pairs rows = {}"
proof -
  have "\<not> ((Some s, Some n) \<in> row_key ` set rows \<and> s \<noteq> [] \<and> n \<noteq> [])" for s n
  proof
    assume a: "(Some s, Some n) \<in> row_key ` set rows \<and> s \<noteq> [] \<and> n \<noteq> []"
    then obtain r where r: "r \<in> set rows" "row_key r = (Some s, Some n)" by auto
    then have "row_incomplete r" using assms by (simp add: list_all_iff)
    then show False using r(2) a by (simp add: row_incomplete_def row_key_def)
  qed
  then show ?thesis unfolding pairs_def by blast
qed

lemma summarize_nothing:
  assumes "src input_file = Inr rows" "Mapping.keys (fst (read_rows rows)) = {}"
  shows "summarize_neighbors src input_file = Inr (NothingWritten NoValidData)"
  using assms by (simp add: summarize_neighbors_def split_beta Mapping.is_empty_def)

text \<open>
  C9: a row whose \<open>goi_strain\<close> or \<open>neighbor_id\<close> field is missing or empty changes
  neither dictionary, wherever it stands in the table; and a table that has only such
  rows ends in the empty-input short-circuit: the diagnostic, and no file written.
\<close>

theorem incomplete_rows_are_dropped:
  "(row_incomplete r \<longrightarrow> read_rows (xs @ r # ys) = read_rows (xs @ ys)) \<and>
   (src input_file = Inr rows \<and> list_all row_incomplete rows \<longrightarrow>
      summarize_neighbors src input_file = Inr (NothingWritten NoValidData))"
proof (intro conjI impI)
  assume "row_incomplete r"
  then have "add_row acc r = acc" for acc
    by (simp add: row_incomplete_iff add_row_invalid)
  then show "read_rows (xs @ r # ys) = read_rows (xs @ ys)"
    by (simp add: read_rows_def)
next
  assume a: "src input_file = Inr rows \<and> list_all row_incomplete rows"
  then have "Mapping.keys (fst (read_rows rows)) = {}"
    by (simp add: keys_read_rows pairs_incomplete)
  with a show "summarize_neighbors src input_file = Inr (NothingWritten NoValidData)"
    using summarize_nothing[of src input_file rows] by simp
qed

theorem incomplete_rows_are_dropped_witness:
  "row_incomplete (table_row [] ''G1'') \<and>
   read_rows (scenario_rows @ table_row [] ''G1'' # [table_row ''S3'' ''G3''])
     = read_rows (scenario_rows @ [table_row ''S3'' ''G3'']) \<and>
   list_all row_incomplete [table_row [] ''G1'', [''goi_strain'' \<mapsto> ''S1'']] \<and>
   summarize_neighbors (\<lambda>p. Inr [table_row [] ''G1'', [''goi_strain'' \<mapsto> ''S1'']])
     ''neighbors.csv'' = Inr (NothingWritten NoValidData)"
proof -
  let ?rows = "[table_row [] ''G1'', [''goi_strain'' \<mapsto> ''S1'']]"
  have h1: "row_incomplete (table_row [] ''G1'')"
    by (simp add: row_incomplete_def table_row_def)
  have h2: "(\<lambda>p. Inr ?rows) ''neighbors.csv'' = Inr ?rows \<and> list_all row_incomplete ?rows"
    by (simp add: row_incomplete_def table_row_def)
  note t = incomplete_rows_are_dropped[of "table_row [] ''G1''" scenario_rows
      "[table_row ''S3'' ''G3'']" "\<lambda>p. Inr ?rows" "''neighbors.csv''" ?rows]
  show ?thesis using t h1 h2 by blast
qed


subsection \<open>The width of the summary tables\<close>

lemma finite_keys_read_rows:
  "finite (Mapping.keys (fst (read_rows rows)))" "finite (Mapping.keys (snd (read_rows rows)))"
  by (simp_all add: keys_read_rows finite_Domain finite_Range finite_pairs)

lemma keys_empty_iff:
  "Mapping.keys (snd (read_rows rows)) = {} \<longleftrightarrow> Mapping.keys (fst (read_rows rows)) = {}"
  by (auto simp: keys_read_rows)

lemma group_le_max:
  assumes "finite (Mapping.keys d)" "k \<in> Mapping.keys d"
  shows "card (group_of d k) \<le> max_group_size d"
  unfolding max_group_size_def using assms by (intro Max_ge) auto

lemma py_max_group_sizes:
  assumes "finite (Mapping.keys d)" "Mapping.keys d \<noteq> {}"
  shows "py_max (group_sizes d) = Inr (int (max_group_size d))"
proof -
  let ?f = "\<lambda>k. card (group_of d k)"
  have ks: "set (Mapping.ordered_keys d) = Mapping.keys d"
    using assms(1) by (simp add: ordered_keys_def)
  then have ne: "group_sizes d \<noteq> []" using assms(2) by (auto simp: group_sizes_def)
  then obtain x xs where xs: "group_sizes d = x # xs" by (cases "group_sizes d") auto
  have "set (group_sizes d) = (\<lambda>k. int (?f k)) ` set (Mapping.ordered_keys d)"
    by (simp add: group_sizes_def group_of_def)
  then have "set (group_sizes d) = int ` (?f ` Mapping.keys d)"
    by (simp only: ks image_image)
  moreover have "Max (int ` (?f ` Mapping.keys d)) = int (Max (?f ` Mapping.keys d))"
    using assms by (intro mono_Max_commute[symmetric]) (auto simp: mono_def)
  ultimately have "Max (set (x # xs)) = int (max_group_size d)"
    using xs by (simp add: max_group_size_def)
  then have "fold max xs x = int (max_group_size d)"
    by (simp only: Max.set_eq_fold)
  then show ?thesis by (simp only: xs py_max.simps)
qed

lemma data_row_padded:
  assumes "finite (Mapping.keys d)" "k \<in> Mapping.keys d"
  shows "data_row d (int (max_group_size d)) k = padded_row d k"
proof -
  have "nat (int (max_group_size d) - int (card (group_of d k)))
      = max_group_size d - card (group_of d k)"
    using group_le_max[OF assms] by simp
  then show ?thesis
    by (simp add: data_row_def padded_row_def Let_def group_of_def)
qed

lemma length_padded_row:
  assumes "finite (Mapping.keys d)" "k \<in> Mapping.keys d"
  shows "length (padded_row d k) = 2 + max_group_size d"
  using group_le_max[OF assms] by (simp add: padded_row_def)

lemma length_header_row: "length (header_row a b c (int m)) = 2 + m"
  by (simp add: header_row_def)

lemma summary_table_eq:
  assumes "finite (Mapping.keys d)" "Mapping.keys d \<noteq> {}"
  shows "summary_table a b c d =
     Inr (header_row a b c (int (max_group_size d))
            # map (padded_row d) (Mapping.ordered_keys d))"
proof -
  have ks: "set (Mapping.ordered_keys d) = Mapping.keys d"
    using assms(1) by (simp add: ordered_keys_def)
  have "map (data_row d (int (max_group_size d))) (Mapping.ordered_keys d)
      = map (padded_row d) (Mapping.ordered_keys d)"
    by (rule map_cong) (auto simp: ks data_row_padded[OF assms(1)])
  then show ?thesis by (simp add: summary_table_def py_max_group_sizes[OF assms])
qed

lemma summarize_written:
  assumes "src input_file = Inr rows" "Mapping.keys (fst (read_rows rows)) \<noteq> {}"
  shows "summarize_neighbors src input_file = Inr (Written
     (header_row ''Strain'' ''Neighbor_Count'' ''Neighbor_''
          (int (max_group_size (fst (read_rows rows))))
        # map (padded_row (fst (read_rows rows))) (Mapping.ordered_keys (fst (read_rows rows))))
     (header_row ''Gene_Name'' ''Strain_Count'' ''Strain_''
          (int (max_group_size (snd (read_rows rows))))
        # map (padded_row (snd (read_rows rows))) (Mapping.ordered_keys (snd (read_rows rows)))))"
proof -
  have g: "Mapping.keys (snd (read_rows rows)) \<noteq> {}" using assms(2) by (simp add: keys_empty_iff)
  show ?thesis using assms
    by (simp add: summarize_neighbors_def split_beta Mapping.is_empty_def
        summary_table_eq[OF finite_keys_read_rows(1) assms(2)]
        summary_table_eq[OF finite_keys_read_rows(2) g])
qed

lemma rows_all_padded:
  assumes "table = header_row a b c (int (max_group_size d))
              # map (padded_row d) (Mapping.ordered_keys d)"
    and "finite (Mapping.keys d)" and "r \<in> set table"
  shows "length r = 2 + max_group_size d"
proof -
  have ks: "set (Mapping.ordered_keys d) = Mapping.keys d"
    using assms(2) by (simp add: ordered_keys_def)
  from assms(3) consider "r = header_row a b c (int (max_group_size d))"
    | k where "k \<in> set (Mapping.ordered_keys d)" "r = padded_row d k"
    unfolding assms(1) by auto
  then consider "r = header_row a b c (int (max_group_size d))"
    | k where "k \<in> Mapping.keys d" "r = padded_row d k"
    unfolding ks by blast
  then show ?thesis
    by cases (simp_all add: length_header_row length_padded_row[OF assms(2)])
qed


text \<open>
  C7: when the two summaries are written, every row of the strain summary, the header
  row included, has exactly two columns more than the largest number of neighbours any
  strain has, and every row of the gene summary has exactly two columns more than the
  largest number of strains any gene has; each data row is the key, the count and the
  sorted members, padded on the right with empty cells.
\<close>

theorem summary_rows_have_equal_width:
  assumes "src input_file = Inr rows"
    and "summarize_neighbors src input_file = Inr (Written strain_rows gene_rows)"
  shows "(\<forall>r \<in> set strain_rows. length r = 2 + max_group_size (fst (read_rows rows))) \<and>
         (\<forall>r \<in> set gene_rows. length r = 2 + max_group_size (snd (read_rows rows))) \<and>
         tl strain_rows = map (padded_row (fst (read_rows rows)))
                              (Mapping.ordered_keys (fst (read_rows rows))) \<and>
         tl gene_rows = map (padded_row (snd (read_rows rows)))
                              (Mapping.ordered_keys (snd (read_rows rows)))"
proof -
  let ?sd = "fst (read_rows rows)" and ?gd = "snd (read_rows rows)"
  have ne: "Mapping.keys ?sd \<noteq> {}"
  proof
    assume "Mapping.keys ?sd = {}"
    from summarize_nothing[of src input_file rows, OF assms(1) this] assms(2)
    show False by simp
  qed
  from summarize_written[of src input_file rows, OF assms(1) ne] assms(2)
  have s: "strain_rows = header_row ''Strain'' ''Neighbor_Count'' ''Neighbor_''
          (int (max_group_size ?sd)) # map (padded_row ?sd) (Mapping.ordered_keys ?sd)"
   and g: "gene_rows = header_row ''Gene_Name'' ''Strain_Count'' ''Strain_''
          (int (max_group_size ?gd)) # map (padded_row ?gd) (Mapping.ordered_keys ?gd)"
    by simp_all
  have 1: "\<forall>r \<in> set strain_rows. length r = 2 + max_group_size ?sd"
    using rows_all_padded[OF s finite_keys_read_rows(1)] by blast
  have 2: "\<forall>r \<in> set gene_rows. length r = 2 + max_group_size ?gd"
    using rows_all_padded[OF g finite_keys_read_rows(2)] by blast
  have 3: "tl strain_rows = map (padded_row ?sd) (Mapping.ordered_keys ?sd)"
    by (subst s) simp
  have 4: "tl gene_rows = map (padded_row ?gd) (Mapping.ordered_keys ?gd)"
    by (subst g) simp
  show ?thesis using 1 2 3 4 by blast
qed

theorem summary_rows_have_equal_width_witness:
  "(\<lambda>p. Inr scenario_rows) ''neighbors.csv'' = Inr scenario_rows \<and>
   summarize_neighbors (\<lambda>p. Inr scenario_rows) ''neighbors.csv'' = Inr (Written
     [[Str ''Strain'', Str ''Neighbor_Count'', Str ''Neighbor_1'', Str ''Neighbor_2''],
      [Str ''S1'', Num 2, Str ''G1'', Str ''G2''],
      [Str ''S2'', Num 1, Str ''G1'', Str '''']]
     [[Str ''Gene_Name'', Str ''Strain_Count'', Str ''Strain_1'', Str ''Strain_2''],
      [Str ''G1'', Num 2, Str ''S1'', Str ''S2''],
      [Str ''G2'', Num 1, Str ''S1'', Str '''']]) \<and>
   max_group_size (fst (read_rows scenario_rows)) = 2 \<and>
   max_group_size (snd (read_rows scenario_rows)) = 2"
proof -
  let ?st = "[[Str ''Strain'', Str ''Neighbor_Count'', Str ''Neighbor_1'', Str ''Neighbor_2''],
      [Str ''S1'', Num 2, Str ''G1'', Str ''G2''],
      [Str ''S2'', Num 1, Str ''G1'', Str '''']]"
  let ?gt = "[[Str ''Gene_Name'', Str ''Strain_Count'', Str ''Strain_1'', Str ''Strain_2''],
      [Str ''G1'', Num 2, Str ''S1'', Str ''S2''],
      [Str ''G2'', Num 1, Str ''S1'', Str '''']]"
  have h1: "(\<lambda>p. Inr scenario_rows) ''neighbors.csv'' = Inr scenario_rows" by simp
  have h2: "summarize_neighbors (\<lambda>p. Inr scenario_rows) ''neighbors.csv''
      = Inr (Written ?st ?gt)"
    by code_simp
  note t = summary_rows_have_equal_width[where src = "\<lambda>p. Inr scenario_rows"
      and input_file = "''neighbors.csv''" and rows = scenario_rows
      and strain_rows = ?st and gene_rows = ?gt, OF h1 h2]
  have a: "max_group_size (fst (read_rows scenario_rows)) = 2"
    using t[THEN conjunct1] by simp
  have b: "max_group_size (snd (read_rows scenario_rows)) = 2"
    using t[THEN conjunct2, THEN conjunct1] by simp
  show ?thesis using h1 h2 a b by blast
qed


subsection \<open>Duplicate rows\<close>

lemma group_of_read_rows:
  "group_of (fst (read_rows rows)) k = pairs rows `` {k}"
  "group_of (snd (read_rows rows)) n = (pairs rows)\<inverse> `` {n}"
  by (auto simp: group_of_def Mapping.lookup_default_def lookup_read_rows)

lemma finite_group_read_rows:
  "finite (group_of (fst (read_rows rows)) k)" "finite (group_of (snd (read_rows rows)) n)"
proof -
  have "pairs rows `` {k} \<subseteq> Range (pairs rows)" by auto
  then show "finite (group_of (fst (read_rows rows)) k)"
    unfolding group_of_read_rows by (rule finite_subset) (simp add: finite_Range finite_pairs)
  have "(pairs rows)\<inverse> `` {n} \<subseteq> Domain (pairs rows)" by auto
  then show "finite (group_of (snd (read_rows rows)) n)"
    unfolding group_of_read_rows by (rule finite_subset) (simp add: finite_Domain finite_pairs)
qed

lemma sum_list_single:
  "distinct xs \<Longrightarrow> s \<in> set xs \<Longrightarrow>
     sum_list (map (\<lambda>k. if k = s then f k else 0) xs) = (f s :: nat)"
proof (induction xs)
  case Nil
  then show ?case by simp
next
  case (Cons x xs)
  show ?case
  proof (cases "x = s")
    case True
    then have "s \<notin> set xs" using Cons.prems(1) by simp
    then have "sum_list (map (\<lambda>k. if k = s then f k else 0) xs) = 0"
      by (induction xs) auto
    with True show ?thesis by simp
  next
    case False
    with Cons show ?thesis by simp
  qed
qed

lemma count_list_distinct: "distinct xs \<Longrightarrow> x \<in> set xs \<Longrightarrow> count_list xs x = 1"
  by (induction xs) (auto simp: count_list_0_iff)

lemma count_list_map_Str: "count_list (map Str ms) (Str m) = count_list ms m"
  by (induction ms) auto

lemma count_list_padding: "m \<noteq> [] \<Longrightarrow> count_list (replicate p (Str [])) (Str m) = 0"
  by (induction p) auto

text \<open>A member of the group of key \<open>k\<close> is listed exactly once in the table.\<close>

lemma listed_once:
  assumes "finite (Mapping.keys d)" "k \<in> Mapping.keys d"
    and "finite (group_of d k)" "m \<in> group_of d k" "m \<noteq> []"
  shows "listed (header # map (padded_row d) (Mapping.ordered_keys d)) k m = 1"
proof -
  have ks: "set (Mapping.ordered_keys d) = Mapping.keys d"
    using assms(1) by (simp add: ordered_keys_def)
  have dk: "distinct (Mapping.ordered_keys d)" by (simp add: ordered_keys_def)
  have fn: "(\<lambda>r. if take 1 r = [Str k] then count_list (drop 2 r) (Str m) else 0)
        \<circ> padded_row d
      = (\<lambda>k'. if k' = k then count_list (sorted_list_of_set (group_of d k')) m else 0)"
    by (rule ext)
       (simp add: padded_row_def count_list_map_Str count_list_padding[OF assms(5)])
  have "listed (header # map (padded_row d) (Mapping.ordered_keys d)) k m
      = sum_list (map ((\<lambda>r. if take 1 r = [Str k] then count_list (drop 2 r) (Str m)
                             else 0) \<circ> padded_row d) (Mapping.ordered_keys d))"
    by (simp only: listed_def list.sel map_map)
  also have "\<dots> = sum_list (map (\<lambda>k'. if k' = k
        then count_list (sorted_list_of_set (group_of d k')) m else 0)
        (Mapping.ordered_keys d))"
    by (simp only: fn)
  also have "\<dots> = count_list (sorted_list_of_set (group_of d k)) m"
    using dk assms(2) ks by (intro sum_list_single) simp_all
  also have "\<dots> = 1"
    using assms(3,4) by (intro count_list_distinct) simp_all
  finally show ?thesis .
qed

text \<open>
  C8: the summaries computed from a neighbour table equal the summaries computed from
  the deduplicated table, in which every row repeating the
  \<open>(goi_strain, neighbor_id)\<close> pair of an earlier row has been dropped; and however often
  a valid pair occurs in the table, the summaries are written, the neighbour is listed
  exactly once in the row of the strain and the strain exactly once in the row of the
  neighbour.
\<close>

theorem summaries_ignore_duplicate_rows:
  "summarize_neighbors (\<lambda>p. Inr (dedup_rows rows)) input_file
     = summarize_neighbors (\<lambda>p. Inr rows) input_file \<and>
   (r \<in> set rows \<and> r ''goi_strain'' = Some s \<and> r ''neighbor_id'' = Some n \<and>
    s \<noteq> [] \<and> n \<noteq> [] \<longrightarrow>
      (\<exists>strain_rows gene_rows.
         summarize_neighbors (\<lambda>p. Inr rows) input_file
           = Inr (Written strain_rows gene_rows) \<and>
         listed strain_rows s n = 1 \<and> listed gene_rows n s = 1))"
proof (intro conjI impI)
  show "summarize_neighbors (\<lambda>p. Inr (dedup_rows rows)) input_file
     = summarize_neighbors (\<lambda>p. Inr rows) input_file"
    by (simp add: summarize_neighbors_def read_rows_cong[OF pairs_dedup])
next
  assume a: "r \<in> set rows \<and> r ''goi_strain'' = Some s \<and> r ''neighbor_id'' = Some n \<and>
    s \<noteq> [] \<and> n \<noteq> []"
  let ?sd = "fst (read_rows rows)" and ?gd = "snd (read_rows rows)"
  have "row_key r = (Some s, Some n)" using a by (simp add: row_key_def)
  then have "(Some s, Some n) \<in> row_key ` set rows"
    using a by (intro image_eqI[of _ _ r]) simp_all
  then have p: "(s, n) \<in> pairs rows" using a by (simp add: pairs_def)
  then have ks: "s \<in> Mapping.keys ?sd" and kn: "n \<in> Mapping.keys ?gd"
    by (auto simp: keys_read_rows)
  from p have gs: "n \<in> group_of ?sd s" and gn: "s \<in> group_of ?gd n"
    by (auto simp: group_of_read_rows)
  have ne: "Mapping.keys ?sd \<noteq> {}" using ks by auto
  note w = summarize_written[of "\<lambda>p. Inr rows" input_file rows, OF refl ne]
  have 1: "listed (header_row ''Strain'' ''Neighbor_Count'' ''Neighbor_''
                (int (max_group_size ?sd))
              # map (padded_row ?sd) (Mapping.ordered_keys ?sd)) s n = 1"
    using a by (intro listed_once finite_keys_read_rows ks finite_group_read_rows gs) simp
  have 2: "listed (header_row ''Gene_Name'' ''Strain_Count'' ''Strain_''
                (int (max_group_size ?gd))
              # map (padded_row ?gd) (Mapping.ordered_keys ?gd)) n s = 1"
    using a by (intro listed_once finite_keys_read_rows kn finite_group_read_rows gn) simp
  from w 1 2 show "\<exists>strain_rows gene_rows.
         summarize_neighbors (\<lambda>p. Inr rows) input_file
           = Inr (Written strain_rows gene_rows) \<and>
         listed strain_rows s n = 1 \<and> listed gene_rows n s = 1"
    by blast
qed

theorem summaries_ignore_duplicate_rows_witness:
  "length duplicated_rows = 4 \<and> length (dedup_rows duplicated_rows) = 3 \<and>
   table_row ''S1'' ''G1'' \<in> set duplicated_rows \<and>
   table_row ''S1'' ''G1'' ''goi_strain'' = Some ''S1'' \<and>
   table_row ''S1'' ''G1'' ''neighbor_id'' = Some ''G1'' \<and>
   summarize_neighbors (\<lambda>p. Inr (dedup_rows duplicated_rows)) ''neighbors.csv''
     = summarize_neighbors (\<lambda>p. Inr duplicated_rows) ''neighbors.csv'' \<and>
   summarize_neighbors (\<lambda>p. Inr duplicated_rows) ''neighbors.csv'' = Inr (Written
     [[Str ''Strain'', Str ''Neighbor_Count'', Str ''Neighbor_1'', Str ''Neighbor_2''],
      [Str ''S1'', Num 2, Str ''G1'', Str ''G2''],
      [Str ''S2'', Num 1, Str ''G1'', Str '''']]
     [[Str ''Gene_Name'', Str ''Strain_Count'', Str ''Strain_1'', Str ''Strain_2''],
      [Str ''G1'', Num 2, Str ''S1'', Str ''S2''],
      [Str ''G2'', Num 1, Str ''S1'', Str '''']]) \<and>
   listed [[Str ''Strain'', Str ''Neighbor_Count'', Str ''Neighbor_1'', Str ''Neighbor_2''],
      [Str ''S1'', Num 2, Str ''G1'', Str ''G2''],
      [Str ''S2'', Num 1, Str ''G1'', Str '''']] ''S1'' ''G1'' = 1 \<and>
   listed [[Str ''Gene_Name'', Str ''Strain_Count'', Str ''Strain_1'', Str ''Strain_2''],
      [Str ''G1'', Num 2, Str ''S1'', Str ''S2''],
      [Str ''G2'', Num 1, Str ''S1'', Str '''']] ''G1'' ''S1'' = 1"
proof -
  let ?st = "[[Str ''Strain'', Str ''Neighbor_Count'', Str ''Neighbor_1'', Str ''Neighbor_2''],
      [Str ''S1'', Num 2, Str ''G1'', Str ''G2''],
      [Str ''S2'', Num 1, Str ''G1'', Str '''']]"
  let ?gt = "[[Str ''Gene_Name'', Str ''Strain_Count'', Str ''Strain_1'', Str ''Strain_2''],
      [Str ''G1'', Num 2, Str ''S1'', Str ''S2''],
      [Str ''G2'', Num 1, Str ''S1'', Str '''']]"
  have l: "length duplicated_rows = 4 \<and> length (dedup_rows duplicated_rows) = 3"
    by code_simp
  have h: "table_row ''S1'' ''G1'' \<in> set duplicated_rows \<and>
      table_row ''S1'' ''G1'' ''goi_strain'' = Some ''S1'' \<and>
      table_row ''S1'' ''G1'' ''neighbor_id'' = Some ''G1'' \<and>
      ''S1'' \<noteq> [] \<and> ''G1'' \<noteq> []"
    by (simp add: duplicated_rows_def table_row_def)
  have e: "summarize_neighbors (\<lambda>p. Inr duplicated_rows) ''neighbors.csv''
      = Inr (Written ?st ?gt)"
    by code_simp
  note t = summaries_ignore_duplicate_rows[of duplicated_rows "''neighbors.csv''"
      "table_row ''S1'' ''G1''" "''S1''" "''G1''"]
  from t h obtain strain_rows gene_rows where
    w: "summarize_neighbors (\<lambda>p. Inr duplicated_rows) ''neighbors.csv''
          = Inr (Written strain_rows gene_rows)"
    and c: "listed strain_rows ''S1'' ''G1'' = 1" "listed gene_rows ''G1'' ''S1'' = 1"
    by blast
  from w e have "strain_rows = ?st" "gene_rows = ?gt" by simp_all
  with c have c': "listed ?st ''S1'' ''G1'' = 1" "listed ?gt ''G1'' ''S1'' = 1" by simp_all
  from t have q: "summarize_neighbors (\<lambda>p. Inr (dedup_rows duplicated_rows)) ''neighbors.csv''
     = summarize_neighbors (\<lambda>p. Inr duplicated_rows) ''neighbors.csv''" by (rule conjunct1)
  show ?thesis using l h q e c' by blast
qed

subsection \<open>Stage 2 handles every failure of its input\<close>

text \<open>
  The counterpart of the missing FASTA file in stage 2: whatever opening or reading the
  neighbour table raises is caught and reported, and nothing is written.
\<close>

lemma summarize_neighbors_unreadable_input:
  "src input_file = Inl e \<Longrightarrow>
     summarize_neighbors src input_file =
       Inr (NothingWritten (if e = FileNotFoundError then InputFileNotFound input_file
                            else ErrorReadingFile e))"
  by (simp add: summarize_neighbors_def)

text \<open>The two calls of \<open>max\<close> never see an empty generator: stage 2 raises nothing.\<close>

lemma summarize_neighbors_never_raises: "\<exists>s. summarize_neighbors src input_file = Inr s"
proof (cases "src input_file")
  case (Inl e)
  then show ?thesis by (simp add: summarize_neighbors_unreadable_input)
next
  case (Inr rows)
  show ?thesis
  proof (cases "Mapping.keys (fst (read_rows rows)) = {}")
    case True
    from summarize_nothing[of src input_file rows, OF Inr True] show ?thesis by blast
  next
    case False
    from summarize_written[of src input_file rows, OF Inr False] show ?thesis by blast
  qed
qed

end
